theory Spec2Isabelle
  imports Main "HOL-Library.AList"
begin

section \<open>JSON values as the Python program sees them\<close>

text \<open>
  The catalog and the status cache are parsed JSON. A Python dict keeps insertion order and
  has no duplicate keys, so an object is an association list (see \<open>wf_json\<close> for the
  distinctness of keys). Numbers are the integers and \<open>JNaN\<close>, the float that
  \<open>json.load\<close> returns for the text \<open>NaN\<close> and that is not equal to itself; other
  numbers with a fraction or an exponent are outside this model. Strings are ASCII text.
\<close>

datatype json =
    JNull
  | JBool bool
  | JNum int
  | JNaN
  | JStr string
  | JArr "json list"
  | JObj "(string \<times> json) list"

datatype error = AttributeError | KeyError | JSONDecodeError

text \<open>Sequencing of steps that may raise: the first exception ends the computation.\<close>

definition bnd :: "error + 'a \<Rightarrow> ('a \<Rightarrow> error + 'b) \<Rightarrow> error + 'b" where
  "bnd m f = (case m of Inl e \<Rightarrow> Inl e | Inr x \<Rightarrow> f x)"

text \<open>Python truth value of a JSON value (\<open>not x\<close> is its negation).\<close>

fun truthy :: "json \<Rightarrow> bool" where
  "truthy JNull = False"
| "truthy (JBool b) = b"
| "truthy (JNum n) = (n \<noteq> 0)"
| "truthy JNaN = True"
| "truthy (JStr s) = (s \<noteq> [])"
| "truthy (JArr xs) = (xs \<noteq> [])"
| "truthy (JObj kvs) = (kvs \<noteq> [])"

text \<open>\<open>d.get(k, default)\<close>: only a dict has the method.\<close>

definition py_get :: "json \<Rightarrow> string \<Rightarrow> json \<Rightarrow> error + json" where
  "py_get d k dflt =
     (case d of
        JObj kvs \<Rightarrow> Inr (case map_of kvs k of None \<Rightarrow> dflt | Some v \<Rightarrow> v)
      | _ \<Rightarrow> Inl AttributeError)"

subsection \<open>Equality\<close>

text \<open>
  Python's \<open>==\<close> on parsed JSON: \<open>True == 1\<close> and \<open>False == 0\<close> hold since bool is a
  subclass of int, lists are compared element by element, dicts regardless of order. NaN is
  equal to nothing, itself included, when two values are compared directly. A list or a dict
  compares its members by identity first, and the \<open>json\<close> module, which parses the catalog
  and the cache, returns one and the same object for every NaN: inside a list or a dict, NaN
  stands equal to NaN.
\<close>

fun py_eq :: "json \<Rightarrow> json \<Rightarrow> bool"
  and py_eq_list :: "json list \<Rightarrow> json list \<Rightarrow> bool"
  and py_eq_items :: "(string \<times> json) list \<Rightarrow> (string \<times> json) list \<Rightarrow> bool" where
  "py_eq JNull JNull = True"
| "py_eq (JBool a) (JBool b) = (a = b)"
| "py_eq (JBool a) (JNum n) = (n = (if a then 1 else 0))"
| "py_eq (JNum n) (JBool a) = (n = (if a then 1 else 0))"
| "py_eq (JNum m) (JNum n) = (m = n)"
| "py_eq (JStr s) (JStr t) = (s = t)"
| "py_eq (JArr xs) (JArr ys) = py_eq_list xs ys"
| "py_eq (JObj a) (JObj b) = (length a = length b \<and> py_eq_items a b)"
| "py_eq _ _ = False"
| "py_eq_list [] [] = True"
| "py_eq_list (x # xs) (y # ys) =
     (((x = JNaN \<and> y = JNaN) \<or> py_eq x y) \<and> py_eq_list xs ys)"
| "py_eq_list _ _ = False"
| "py_eq_items [] b = True"
| "py_eq_items ((k, v) # a) b =
     ((case map_of b k of None \<Rightarrow> False | Some w \<Rightarrow> (v = JNaN \<and> w = JNaN) \<or> py_eq v w)
      \<and> py_eq_items a b)"

text \<open>Values \<open>json.load\<close> can return: no dict has a key twice.\<close>

fun wf_json :: "json \<Rightarrow> bool" where
  "wf_json (JArr xs) = (\<forall>x \<in> set xs. wf_json x)"
| "wf_json (JObj kvs) = (distinct (map fst kvs) \<and> (\<forall>v \<in> snd ` set kvs. wf_json v))"
| "wf_json _ = True"

subsection \<open>Conversion to text\<close>

fun digits :: "nat \<Rightarrow> string" where
  "digits n =
     (if n < 10 then [''0123456789'' ! n]
      else digits (n div 10) @ [''0123456789'' ! (n mod 10)])"

declare digits.simps [simp del]

definition str_int :: "int \<Rightarrow> string" where
  "str_int i = (if i < 0 then CHR ''-'' # digits (nat (- i)) else digits (nat i))"

text \<open>\<open>sep.join(parts)\<close>\<close>

fun py_join :: "string \<Rightarrow> string list \<Rightarrow> string" where
  "py_join sep [] = []"
| "py_join sep [x] = x"
| "py_join sep (x # y # ys) = x @ sep @ py_join sep (y # ys)"

text \<open>
  \<open>repr\<close> of a string: single quotes, unless the text has a single quote and no double
  quote; backslash, the quote in use and control characters are escaped.
\<close>

definition repr_char :: "char \<Rightarrow> char \<Rightarrow> string" where
  "repr_char q c =
     (if c = CHR 0x5C then [CHR 0x5C, CHR 0x5C]
      else if c = q then [CHR 0x5C, q]
      else if c = CHR 0x0A then [CHR 0x5C, CHR ''n'']
      else if c = CHR 0x0D then [CHR 0x5C, CHR ''r'']
      else if c = CHR 0x09 then [CHR 0x5C, CHR ''t'']
      else if (of_char c :: nat) < 32 \<or> (of_char c :: nat) = 127
        then [CHR 0x5C, CHR ''x'', ''0123456789abcdef'' ! ((of_char c :: nat) div 16),
              ''0123456789abcdef'' ! ((of_char c :: nat) mod 16)]
      else [c])"

definition repr_str :: "string \<Rightarrow> string" where
  "repr_str s =
     (let q = (if CHR 0x27 \<in> set s \<and> CHR 0x22 \<notin> set s then CHR 0x22 else CHR 0x27)
      in q # concat (map (repr_char q) s) @ [q])"

fun py_repr :: "json \<Rightarrow> string" where
  "py_repr JNull = ''None''"
| "py_repr (JBool b) = (if b then ''True'' else ''False'')"
| "py_repr (JNum n) = str_int n"
| "py_repr JNaN = ''nan''"
| "py_repr (JStr s) = repr_str s"
| "py_repr (JArr xs) = ''['' @ py_join '', '' (map py_repr xs) @ '']''"
| "py_repr (JObj kvs) =
     ''{'' @ py_join '', '' (map (\<lambda>(k, v). repr_str k @ '': '' @ py_repr v) kvs) @ ''}''"

text \<open>\<open>str(x)\<close>, which is also what an f-string and \<open>str.format\<close> insert.\<close>

definition py_str :: "json \<Rightarrow> string" where
  "py_str v = (case v of JStr s \<Rightarrow> s | _ \<Rightarrow> py_repr v)"

section \<open>The program\<close>

subsection \<open>Configuration and helpers\<close>

definition STATUS_FILE :: string where
  "STATUS_FILE = ''status_cache.json''"

text \<open>\<open>MOD_DOWNLOAD_TEMPLATE.format(attachment_id)\<close>, applied to the text of the id.\<close>

definition MOD_DOWNLOAD_TEMPLATE :: "string \<Rightarrow> string" where
  "MOD_DOWNLOAD_TEMPLATE a = ''https://onb.keristero.com/mods/'' @ a @ ''.zip''"

text \<open>"players" becomes "player", "skins" becomes "skin".\<close>

definition get_singular_name :: "string \<Rightarrow> string" where
  "get_singular_name type_name =
     (if type_name \<noteq> [] \<and> last type_name = CHR ''s'' then butlast type_name
      else type_name)"

text \<open>
  \<open>get_singular_name\<close> calls \<open>endswith\<close> on whatever it is given, and of the values
  JSON parses to only a str has that method.
\<close>

definition str_receiver :: "json \<Rightarrow> error + string" where
  "str_receiver v = (case v of JStr s \<Rightarrow> Inr s | _ \<Rightarrow> Inl AttributeError)"

subsection \<open>The outside world\<close>

text \<open>
  What one request to the archive endpoint leads to inside the \<open>try\<close> block:
  \<open>ConnError\<close> when \<open>requests.get\<close> raises; otherwise the status code, and with it the
  hex digest \<open>calculate_md5\<close> returns when the body is written, hashed and removed, or
  \<open>None\<close> when one of these raises. The digest is read only for status 200.
\<close>

datatype response = ConnError | Response int "string option"

text \<open>
  \<open>catalog\<close> is the parsed mod list, \<open>None\<close> when fetching or parsing it raises;
  \<open>archive n url\<close> answers the request number \<open>n\<close> of the run (counted from 0), made to
  \<open>url\<close>.
\<close>

record world =
  catalog :: "json option"
  archive :: "nat \<Rightarrow> string \<Rightarrow> response"

datatype content = JsonDoc json | TextDoc string

type_synonym files = "string \<rightharpoonup> content"

subsection \<open>The state of the loop\<close>

text \<open>
  The local variables of \<open>main\<close> that the loop changes, and \<open>requests\<close>, the addresses
  asked of the archive endpoint so far, in order.
\<close>

record state =
  status_cache :: json
  type_buckets :: "(string \<times> (string \<times> json) list) list"
  hash_buckets :: "(string \<times> string list) list"
  updates_made :: bool
  requests :: "string list"

definition initial :: "json \<Rightarrow> state" where
  "initial c = \<lparr>status_cache = c, type_buckets = [], hash_buckets = [],
                 updates_made = False, requests = []\<rparr>"

subsection \<open>One catalog entry\<close>

text \<open>The four reads at the top of the loop body: type, id, attachment id, timestamp.\<close>

definition entry_fields :: "json \<Rightarrow> error + (json \<times> json \<times> json \<times> json)" where
  "entry_fields item =
     bnd (py_get item ''data'' (JObj [])) (\<lambda>data.
     bnd (py_get item ''attachment_data'' (JObj [])) (\<lambda>attachment_data.
     bnd (py_get data ''type'' (JStr ''unknown'')) (\<lambda>mod_type.
     bnd (py_get data ''id'' JNull) (\<lambda>mod_id.
     bnd (py_get attachment_data ''attachment_id'' JNull) (\<lambda>attachment_id.
     bnd (py_get attachment_data ''timestamp'' JNull) (\<lambda>timestamp.
       Inr (mod_type, mod_id, attachment_id, timestamp)))))))"

text \<open>"Initialize buckets if new type found".\<close>

definition new_type :: "string \<Rightarrow> state \<Rightarrow> state" where
  "new_type singular_type st =
     (if singular_type \<notin> fst ` set (type_buckets st)
      then st\<lparr>type_buckets := AList.update singular_type [] (type_buckets st),
              hash_buckets := AList.update singular_type [] (hash_buckets st)\<rparr>
      else st)"

text \<open>\<open>type_buckets[singular_type][key] = item\<close>\<close>

definition put_entry :: "string \<Rightarrow> string \<Rightarrow> json \<Rightarrow> state \<Rightarrow> error + state" where
  "put_entry singular_type key item st =
     (case map_of (type_buckets st) singular_type of
        None \<Rightarrow> Inl KeyError
      | Some bucket \<Rightarrow>
          Inr (st\<lparr>type_buckets :=
                 AList.update singular_type (AList.update key item bucket) (type_buckets st)\<rparr>))"

text \<open>The condition "new file or timestamp changed"; the timestamp is read only from a
  record that is not falsy.\<close>

definition cache_miss :: "json \<Rightarrow> json \<Rightarrow> error + bool" where
  "cache_miss cache_entry timestamp =
     (if \<not> truthy cache_entry then Inr True
      else bnd (py_get cache_entry ''timestamp'' JNull) (\<lambda>cached.
             Inr (\<not> py_eq cached timestamp)))"

text \<open>"Add to hash bucket (Format: MD5 ID)".\<close>

definition add_hash_line :: "string \<Rightarrow> json \<Rightarrow> json \<Rightarrow> state \<Rightarrow> error + state" where
  "add_hash_line singular_type current_md5 mod_id st =
     (if truthy current_md5
      then (case map_of (hash_buckets st) singular_type of
              None \<Rightarrow> Inl KeyError
            | Some lines \<Rightarrow>
                Inr (st\<lparr>hash_buckets :=
                       AList.update singular_type
                         (lines @ [py_str current_md5 @ '' '' @ py_str mod_id])
                         (hash_buckets st)\<rparr>))
      else Inr st)"

text \<open>
  The \<open>try\<close> block of a miss. Both \<open>continue\<close> paths (status other than 200, exception)
  return the state with nothing but the request recorded. Storing the cache record is inside
  the \<open>try\<close>, so a failing store would be caught too.
\<close>

definition download_and_hash ::
    "world \<Rightarrow> string \<Rightarrow> json \<Rightarrow> json \<Rightarrow> json \<Rightarrow> state \<Rightarrow> error + state" where
  "download_and_hash w singular_type mod_id attachment_id timestamp st =
     (let zip_url = MOD_DOWNLOAD_TEMPLATE (py_str attachment_id);
          asked = st\<lparr>requests := requests st @ [zip_url]\<rparr>
      in case archive w (length (requests st)) zip_url of
           ConnError \<Rightarrow> Inr asked
         | Response status_code body \<Rightarrow>
             if status_code = 200
             then (case body of
                     None \<Rightarrow> Inr asked
                   | Some current_md5 \<Rightarrow>
                       (case status_cache asked of
                          JObj records \<Rightarrow>
                            add_hash_line singular_type (JStr current_md5) mod_id
                              (asked\<lparr>status_cache :=
                                  JObj (AList.update (py_str attachment_id)
                                    (JObj [(''timestamp'', timestamp),
                                           (''md5'', JStr current_md5),
                                           (''id'', mod_id)]) records),
                                updates_made := True\<rparr>)
                        | _ \<Rightarrow> Inr asked))
             else Inr asked)"

text \<open>The loop body.\<close>

definition process_entry :: "world \<Rightarrow> state \<Rightarrow> string \<times> json \<Rightarrow> error + state" where
  "process_entry w st entry =
     (case entry of (key, item) \<Rightarrow>
        bnd (entry_fields item) (\<lambda>(mod_type, mod_id, attachment_id, timestamp).
          if \<not> truthy mod_id \<or> \<not> truthy attachment_id then Inr st
          else
            bnd (str_receiver mod_type) (\<lambda>type_name.
            let singular_type = get_singular_name type_name in
            bnd (put_entry singular_type key item (new_type singular_type st)) (\<lambda>st1.
            bnd (py_get (status_cache st1) (py_str attachment_id) JNull) (\<lambda>cache_entry.
            bnd (cache_miss cache_entry timestamp) (\<lambda>miss.
              if miss
              then download_and_hash w singular_type mod_id attachment_id timestamp st1
              else bnd (py_get cache_entry ''md5'' JNull) (\<lambda>current_md5.
                     add_hash_line singular_type current_md5 mod_id st1)))))))"

fun process_all :: "world \<Rightarrow> state \<Rightarrow> (string \<times> json) list \<Rightarrow> error + state" where
  "process_all w st [] = Inr st"
| "process_all w st (entry # rest) =
     bnd (process_entry w st entry) (\<lambda>st'. process_all w st' rest)"

subsection \<open>The whole run\<close>

record run =
  writes :: "(string \<times> content) list"
  archive_requests :: "string list"

definition load_cache :: "files \<Rightarrow> error + json" where
  "load_cache fs =
     (case fs STATUS_FILE of
        None \<Rightarrow> Inr (JObj [])
      | Some (JsonDoc c) \<Rightarrow> Inr c
      | Some (TextDoc t) \<Rightarrow> Inl JSONDecodeError)"

text \<open>\<open>mod_list.items()\<close>\<close>

definition items :: "json \<Rightarrow> error + (string \<times> json) list" where
  "items mod_list = (case mod_list of JObj kvs \<Rightarrow> Inr kvs | _ \<Rightarrow> Inl AttributeError)"

text \<open>
  The three "save outputs" steps, as the files opened for writing, in order. Opening and
  writing a file is taken to succeed. The archive that a download puts into the directory for
  the time of hashing, under the attachment id followed by ".zip", is not part of the model.
\<close>

definition save_outputs :: "state \<Rightarrow> (string \<times> content) list" where
  "save_outputs st =
     (if updates_made st then [(STATUS_FILE, JsonDoc (status_cache st))] else [])
     @ map (\<lambda>(type_name, data_dict). (type_name @ ''.json'', JsonDoc (JObj data_dict)))
         (type_buckets st)
     @ map (\<lambda>(type_name, lines). (type_name @ ''_hash.txt'', TextDoc (py_join [CHR 0x0A] lines)))
         (hash_buckets st)"

definition main :: "world \<Rightarrow> files \<Rightarrow> error + run" where
  "main w fs =
     (case catalog w of
        None \<Rightarrow> Inr \<lparr>writes = [], archive_requests = []\<rparr>
      | Some mod_list \<Rightarrow>
          bnd (load_cache fs) (\<lambda>cache.
          bnd (items mod_list) (\<lambda>entries.
          bnd (process_all w (initial cache) entries) (\<lambda>st.
            Inr \<lparr>writes = save_outputs st, archive_requests = requests st\<rparr>))))"

text \<open>The files after the writes of a run.\<close>

definition written :: "(string \<times> content) list \<Rightarrow> files \<Rightarrow> files" where
  "written ws fs = fold (\<lambda>(name, c) fs. fs(name \<mapsto> c)) ws fs"

section \<open>Observations used in the statements\<close>

text \<open>The JSON bucket and the hash lines of a type; empty when the type has no bucket.\<close>

definition bucket_of :: "state \<Rightarrow> string \<Rightarrow> (string \<times> json) list" where
  "bucket_of st t = (case map_of (type_buckets st) t of None \<Rightarrow> [] | Some b \<Rightarrow> b)"

definition lines_of :: "state \<Rightarrow> string \<Rightarrow> string list" where
  "lines_of st t = (case map_of (hash_buckets st) t of None \<Rightarrow> [] | Some ls \<Rightarrow> ls)"

text \<open>A request that ends on one of the two \<open>continue\<close> paths of the \<open>try\<close> block.\<close>

fun failed :: "response \<Rightarrow> bool" where
  "failed ConnError = True"
| "failed (Response status_code body) = (status_code \<noteq> 200 \<or> body = None)"

text \<open>The state once the entry is in the JSON bucket of its type (before the cache is read).\<close>

definition bucketed :: "string \<Rightarrow> string \<Rightarrow> json \<Rightarrow> state \<Rightarrow> state" where
  "bucketed t key item st =
     (new_type t st)\<lparr>type_buckets :=
        AList.update t (AList.update key item (bucket_of (new_type t st) t))
          (type_buckets (new_type t st))\<rparr>"

text \<open>
  Both containers are initialised together, so from the start of the loop on they hold the
  same types.
\<close>

definition aligned :: "state \<Rightarrow> bool" where
  "aligned st = (fst ` set (hash_buckets st) = fst ` set (type_buckets st))"

text \<open>
  What the loop reads from a cache record: \<open>cache_entry.get('timestamp')\<close> and
  \<open>cache_entry.get('md5')\<close> (\<open>None\<close> where the key is missing; the loop reads them
  from a record that is not falsy only).
\<close>

definition stamp_of :: "json \<Rightarrow> json" where
  "stamp_of cache_entry =
     (case py_get cache_entry ''timestamp'' JNull of Inr v \<Rightarrow> v | Inl e \<Rightarrow> JNull)"

definition md5_of :: "json \<Rightarrow> json" where
  "md5_of cache_entry =
     (case py_get cache_entry ''md5'' JNull of Inr v \<Rightarrow> v | Inl e \<Rightarrow> JNull)"

text \<open>The record a successful download stores.\<close>

definition stored :: "json \<Rightarrow> string \<Rightarrow> json \<Rightarrow> json" where
  "stored timestamp current_md5 mod_id =
     JObj [(''timestamp'', timestamp), (''md5'', JStr current_md5), (''id'', mod_id)]"

text \<open>
  The type under which the loop files an entry: the singular of its type when both ids are
  there and the type is a string; none for an entry the loop skips.
\<close>

definition bucket_name :: "json \<Rightarrow> string option" where
  "bucket_name item =
     (case entry_fields item of
        Inl e \<Rightarrow> None
      | Inr (mod_type, mod_id, attachment_id, timestamp) \<Rightarrow>
          if truthy mod_id \<and> truthy attachment_id
          then (case mod_type of JStr ty \<Rightarrow> Some (get_singular_name ty) | _ \<Rightarrow> None)
          else None)"

text \<open>
  A content hash is at hand for an entry: the record of its attachment id carries the remote
  timestamp and a usable \<open>md5\<close>, or the archive request made now is answered with status
  200 and hashed.
\<close>

definition has_hash :: "world \<Rightarrow> state \<Rightarrow> json \<Rightarrow> bool" where
  "has_hash w st item =
     (case entry_fields item of
        Inl e \<Rightarrow> False
      | Inr (mod_type, mod_id, attachment_id, timestamp) \<Rightarrow>
          (case py_get (status_cache st) (py_str attachment_id) JNull of
             Inl e \<Rightarrow> False
           | Inr cache_entry \<Rightarrow>
               if truthy cache_entry \<and> py_eq (stamp_of cache_entry) timestamp
               then truthy (md5_of cache_entry)
               else (case archive w (length (requests st))
                            (MOD_DOWNLOAD_TEMPLATE (py_str attachment_id)) of
                       Response status_code (Some d) \<Rightarrow> status_code = 200 \<and> d \<noteq> []
                     | _ \<Rightarrow> False)))"

text \<open>
  The key under which the loop looks an entry up in the cache: the text of its attachment
  id; none for an entry the loop skips.
\<close>

definition cache_key :: "json \<Rightarrow> string option" where
  "cache_key item =
     (case entry_fields item of
        Inl e \<Rightarrow> None
      | Inr (mod_type, mod_id, attachment_id, timestamp) \<Rightarrow>
          if truthy mod_id \<and> truthy attachment_id then Some (py_str attachment_id) else None)"

text \<open>
  One of the requests \<open>urls\<close>, made as the requests number \<open>n\<close>, \<open>n + 1\<close>, ... of a
  run, was answered with status 200 and hashed.
\<close>

fun any_success :: "world \<Rightarrow> nat \<Rightarrow> string list \<Rightarrow> bool" where
  "any_success w n [] = False"
| "any_success w n (url # urls) = (\<not> failed (archive w n url) \<or> any_success w (Suc n) urls)"

text \<open>A value with the method \<open>get\<close>.\<close>

fun is_dict :: "json \<Rightarrow> bool" where
  "is_dict (JObj kvs) = True"
| "is_dict _ = False"

text \<open>The timestamp the loop reads from an entry.\<close>

definition remote_stamp :: "json \<Rightarrow> json" where
  "remote_stamp item =
     (case entry_fields item of
        Inl e \<Rightarrow> JNull
      | Inr (mod_type, mod_id, attachment_id, timestamp) \<Rightarrow> timestamp)"

text \<open>
  Processed entries with the same attachment id carry timestamps that are equal under
  Python's \<open>==\<close>; with an entry taken twice: the timestamp of a processed entry is equal to
  itself, so it is not NaN.
\<close>

definition stamps_agree :: "(string \<times> json) list \<Rightarrow> bool" where
  "stamps_agree entries =
     (\<forall>e \<in> set entries. \<forall>e' \<in> set entries.
        cache_key (snd e) \<noteq> None \<and> cache_key (snd e') = cache_key (snd e)
        \<longrightarrow> py_eq (remote_stamp (snd e)) (remote_stamp (snd e')))"

section \<open>Sample inputs\<close>

text \<open>
  The scenario of the specification: one entry of type "players" with id "p1", attachment
  "a1" and timestamp "t1"; an archive endpoint that refuses every request with status 404,
  and one that serves every archive, hashed to the same digest.
\<close>

definition item1 :: json where
  "item1 = JObj [(''data'', JObj [(''type'', JStr ''players''), (''id'', JStr ''p1'')]),
                 (''attachment_data'',
                  JObj [(''attachment_id'', JStr ''a1''), (''timestamp'', JStr ''t1'')])]"

definition refusing :: world where
  "refusing = \<lparr>catalog = Some (JObj [(''k1'', item1)]),
                archive = (\<lambda>n url. Response 404 None)\<rparr>"

definition serving :: world where
  "serving = \<lparr>catalog = Some (JObj [(''k1'', item1)]),
               archive = (\<lambda>n url. Response 200 (Some ''0cc175b9c0f1b6a831c399e269772661''))\<rparr>"

text \<open>The same entry after the remote timestamp moved to "t2".\<close>

definition item1_moved :: json where
  "item1_moved = JObj [(''data'', JObj [(''type'', JStr ''players''), (''id'', JStr ''p1'')]),
                 (''attachment_data'',
                  JObj [(''attachment_id'', JStr ''a1''), (''timestamp'', JStr ''t2'')])]"

text \<open>An entry whose mod id is the empty string.\<close>

definition item_empty_id :: json where
  "item_empty_id =
     JObj [(''data'', JObj [(''type'', JStr ''players''), (''id'', JStr [])]),
           (''attachment_data'',
            JObj [(''attachment_id'', JStr ''a1''), (''timestamp'', JStr ''t1'')])]"

text \<open>A cache whose record for "a1" has the timestamp "t1" and an empty digest.\<close>

definition cache_no_md5 :: json where
  "cache_no_md5 =
     JObj [(''a1'', JObj [(''timestamp'', JStr ''t1''), (''md5'', JStr []), (''id'', JStr ''p1'')])]"

text \<open>The entry without a type field.\<close>

definition item_untyped :: json where
  "item_untyped = JObj [(''data'', JObj [(''id'', JStr ''p1'')]),
                 (''attachment_data'',
                  JObj [(''attachment_id'', JStr ''a1''), (''timestamp'', JStr ''t1'')])]"

text \<open>The state after the loop body has run on it, from an empty cache, the archive served.\<close>

definition after_untyped :: state where
  "after_untyped =
     \<lparr>status_cache = JObj [(''a1'', JObj [(''timestamp'', JStr ''t1''),
                                           (''md5'', JStr ''0cc175b9c0f1b6a831c399e269772661''),
                                           (''id'', JStr ''p1'')])],
      type_buckets = [(''unknown'', [(''k1'', item_untyped)])],
      hash_buckets = [(''unknown'', [''0cc175b9c0f1b6a831c399e269772661 p1''])],
      updates_made = True,
      requests = [''https://onb.keristero.com/mods/a1.zip'']\<rparr>"

text \<open>The cache a successful run on the sample catalog leaves, and its record for "a1".\<close>

definition record1 :: json where
  "record1 = JObj [(''timestamp'', JStr ''t1''),
                   (''md5'', JStr ''0cc175b9c0f1b6a831c399e269772661''),
                   (''id'', JStr ''p1'')]"

definition cache1 :: json where
  "cache1 = JObj [(''a1'', record1)]"

text \<open>The state after the loop body has run on the sample entry with that cache.\<close>

definition after_hit :: state where
  "after_hit =
     \<lparr>status_cache = cache1,
      type_buckets = [(''player'', [(''k1'', item1)])],
      hash_buckets = [(''player'', [''0cc175b9c0f1b6a831c399e269772661 p1''])],
      updates_made = False,
      requests = []\<rparr>"

text \<open>
  An entry whose type is "status_cache", in a catalog of its own; and the files of a
  directory that holds the cache of an earlier run.
\<close>

definition item_clash :: json where
  "item_clash = JObj [(''data'', JObj [(''type'', JStr ''status_cache''), (''id'', JStr ''p1'')]),
                 (''attachment_data'',
                  JObj [(''attachment_id'', JStr ''a1''), (''timestamp'', JStr ''t1'')])]"

definition clashing :: world where
  "clashing = \<lparr>catalog = Some (JObj [(''k1'', item_clash)]),
                archive = (\<lambda>n url. Response 404 None)\<rparr>"

definition with_cache1 :: files where
  "with_cache1 = [STATUS_FILE \<mapsto> JsonDoc cache1]"

text \<open>
  A catalog in which two entries share the attachment "a1" with different timestamps, and
  the runs of the examples below.
\<close>

definition twins :: world where
  "twins = \<lparr>catalog = Some (JObj [(''k1'', item1), (''k2'', item1_moved)]),
             archive = (\<lambda>n url. Response 200 (Some ''0cc175b9c0f1b6a831c399e269772661''))\<rparr>"

definition record1_moved :: json where
  "record1_moved = JObj [(''timestamp'', JStr ''t2''),
                   (''md5'', JStr ''0cc175b9c0f1b6a831c399e269772661''),
                   (''id'', JStr ''p1'')]"

definition twins_run :: run where
  "twins_run =
     \<lparr>writes = [(''status_cache.json'', JsonDoc (JObj [(''a1'', record1_moved)])),
                (''player.json'', JsonDoc (JObj [(''k1'', item1), (''k2'', item1_moved)])),
                (''player_hash.txt'',
                 TextDoc (''0cc175b9c0f1b6a831c399e269772661 p1'' @ [CHR 0x0A]
                          @ ''0cc175b9c0f1b6a831c399e269772661 p1''))],
      archive_requests = [''https://onb.keristero.com/mods/a1.zip'',
                          ''https://onb.keristero.com/mods/a1.zip'']\<rparr>"

definition refused_run :: run where
  "refused_run =
     \<lparr>writes = [(''player.json'', JsonDoc (JObj [(''k1'', item1)])),
                (''player_hash.txt'', TextDoc [])],
      archive_requests = [''https://onb.keristero.com/mods/a1.zip'']\<rparr>"

definition served_run :: run where
  "served_run =
     \<lparr>writes = [(''status_cache.json'', JsonDoc cache1),
                (''player.json'', JsonDoc (JObj [(''k1'', item1)])),
                (''player_hash.txt'', TextDoc ''0cc175b9c0f1b6a831c399e269772661 p1'')],
      archive_requests = [''https://onb.keristero.com/mods/a1.zip'']\<rparr>"

text \<open>
  An entry without a timestamp, in a catalog of its own, and a directory whose cache holds
  an empty record for its attachment; the run of the two.
\<close>

definition item_no_stamp :: json where
  "item_no_stamp = JObj [(''data'', JObj [(''type'', JStr ''players''), (''id'', JStr ''p1'')]),
                 (''attachment_data'', JObj [(''attachment_id'', JStr ''a1'')])]"

definition stampless :: world where
  "stampless = \<lparr>catalog = Some (JObj [(''k1'', item_no_stamp)]),
             archive = (\<lambda>n url. Response 200 (Some ''0cc175b9c0f1b6a831c399e269772661''))\<rparr>"

definition with_empty_record :: files where
  "with_empty_record = [STATUS_FILE \<mapsto> JsonDoc (JObj [(''a1'', JObj [])])]"

definition stampless_run :: run where
  "stampless_run =
     \<lparr>writes = [(''status_cache.json'',
                 JsonDoc (JObj [(''a1'', JObj [(''timestamp'', JNull),
                                               (''md5'', JStr ''0cc175b9c0f1b6a831c399e269772661''),
                                               (''id'', JStr ''p1'')])])),
                (''player.json'', JsonDoc (JObj [(''k1'', item_no_stamp)])),
                (''player_hash.txt'', TextDoc ''0cc175b9c0f1b6a831c399e269772661 p1'')],
      archive_requests = [''https://onb.keristero.com/mods/a1.zip'']\<rparr>"

text \<open>
  An entry whose timestamp is NaN, and a catalog in which two entries share the attachment
  "a1" and the timestamp "t1"; the runs of both from an empty directory.
\<close>

definition item_nan :: json where
  "item_nan = JObj [(''data'', JObj [(''type'', JStr ''players''), (''id'', JStr ''p1'')]),
                 (''attachment_data'',
                  JObj [(''attachment_id'', JStr ''a1''), (''timestamp'', JNaN)])]"

definition nan_stamped :: world where
  "nan_stamped = \<lparr>catalog = Some (JObj [(''k1'', item_nan)]),
             archive = (\<lambda>n url. Response 200 (Some ''0cc175b9c0f1b6a831c399e269772661''))\<rparr>"

definition nan_run :: run where
  "nan_run =
     \<lparr>writes = [(''status_cache.json'',
                 JsonDoc (JObj [(''a1'', JObj [(''timestamp'', JNaN),
                                               (''md5'', JStr ''0cc175b9c0f1b6a831c399e269772661''),
                                               (''id'', JStr ''p1'')])])),
                (''player.json'', JsonDoc (JObj [(''k1'', item_nan)])),
                (''player_hash.txt'', TextDoc ''0cc175b9c0f1b6a831c399e269772661 p1'')],
      archive_requests = [''https://onb.keristero.com/mods/a1.zip'']\<rparr>"

definition sharing :: world where
  "sharing = \<lparr>catalog = Some (JObj [(''k1'', item1), (''k2'', item1)]),
             archive = (\<lambda>n url. Response 200 (Some ''0cc175b9c0f1b6a831c399e269772661''))\<rparr>"

definition sharing_run :: run where
  "sharing_run =
     \<lparr>writes = [(''status_cache.json'', JsonDoc cache1),
                (''player.json'', JsonDoc (JObj [(''k1'', item1), (''k2'', item1)])),
                (''player_hash.txt'',
                 TextDoc (''0cc175b9c0f1b6a831c399e269772661 p1'' @ [CHR 0x0A]
                          @ ''0cc175b9c0f1b6a831c399e269772661 p1''))],
      archive_requests = [''https://onb.keristero.com/mods/a1.zip'']\<rparr>"

section \<open>Basic facts\<close>

lemma bnd_Inl [simp]: "bnd (Inl e) f = Inl e"
  and bnd_Inr [simp]: "bnd (Inr x) f = f x"
  by (simp_all add: bnd_def)

lemma bnd_eq_Inr: "bnd m f = Inr y \<longleftrightarrow> (\<exists>x. m = Inr x \<and> f x = Inr y)"
  by (cases m) simp_all

lemma notin_keys: "(t \<notin> fst ` set xs) = (map_of xs t = None)"
  by (simp add: map_of_eq_None_iff)

lemma map_of_update_same [simp]: "map_of (AList.update k v al) k = Some v"
  by (simp add: AList.update_conv')

lemma aligned_iff:
  "aligned st \<Longrightarrow> (map_of (hash_buckets st) t = None) = (map_of (type_buckets st) t = None)"
  by (simp add: aligned_def map_of_eq_None_iff)

lemma aligned_None:
  "aligned st \<Longrightarrow> map_of (type_buckets st) t = None \<Longrightarrow> map_of (hash_buckets st) t = None"
  by (simp add: aligned_iff)

lemma aligned_None':
  "aligned st \<Longrightarrow> map_of (hash_buckets st) t = None \<Longrightarrow> map_of (type_buckets st) t = None"
  by (simp add: aligned_iff)

lemma aligned_initial [simp]: "aligned (initial c)"
  by (simp add: aligned_def initial_def)

subsection \<open>Putting an entry into its bucket\<close>

lemma map_of_new_type: "map_of (type_buckets (new_type t st)) t \<noteq> None"
  by (auto simp: new_type_def AList.dom_update map_of_eq_None_iff)

lemma put_entry_new_type:
  "put_entry t key item (new_type t st) = Inr (bucketed t key item st)"
  using map_of_new_type [of t st]
  by (auto simp: put_entry_def bucketed_def bucket_of_def split: option.splits)

lemma bucketed_fields [simp]:
  "status_cache (bucketed t key item st) = status_cache st"
  "updates_made (bucketed t key item st) = updates_made st"
  "requests (bucketed t key item st) = requests st"
  by (simp_all add: bucketed_def new_type_def)

lemma bucket_of_bucketed:
  "bucket_of (bucketed t key item st) t' =
     (if t' = t then AList.update key item (bucket_of st t) else bucket_of st t')"
  by (auto simp: bucketed_def bucket_of_def new_type_def AList.update_conv' notin_keys
           split: option.splits)

lemma lines_of_bucketed [simp]:
  "aligned st \<Longrightarrow> lines_of (bucketed t key item st) t' = lines_of st t'"
  by (auto simp: bucketed_def lines_of_def new_type_def AList.update_conv' notin_keys
           split: option.splits dest: aligned_None aligned_None')

lemma aligned_bucketed [simp]: "aligned st \<Longrightarrow> aligned (bucketed t key item st)"
  by (auto simp: aligned_def bucketed_def new_type_def AList.dom_update)

lemma hash_bucket_bucketed:
  "aligned st \<Longrightarrow> map_of (hash_buckets (bucketed t key item st)) t = Some (lines_of st t)"
  by (auto simp: bucketed_def lines_of_def new_type_def AList.update_conv' notin_keys
           split: option.splits dest: aligned_None aligned_None')

lemma bucket_of_requests [simp]: "bucket_of (st\<lparr>requests := r\<rparr>) t = bucket_of st t"
  and lines_of_requests [simp]: "lines_of (st\<lparr>requests := r\<rparr>) t = lines_of st t"
  by (simp_all add: bucket_of_def lines_of_def)

subsection \<open>The loop body on an entry that passes the check of the two ids\<close>

lemma process_entry_valid:
  assumes "entry_fields item = Inr (JStr ty, mod_id, attachment_id, timestamp)"
      and "truthy mod_id" and "truthy attachment_id"
  shows "process_entry w st (key, item) =
     bnd (py_get (status_cache st) (py_str attachment_id) JNull) (\<lambda>cache_entry.
     bnd (cache_miss cache_entry timestamp) (\<lambda>miss.
       if miss
       then download_and_hash w (get_singular_name ty) mod_id attachment_id timestamp
              (bucketed (get_singular_name ty) key item st)
       else bnd (py_get cache_entry ''md5'' JNull) (\<lambda>current_md5.
              add_hash_line (get_singular_name ty) current_md5 mod_id
                (bucketed (get_singular_name ty) key item st))))"
  using assms by (simp add: process_entry_def str_receiver_def put_entry_new_type Let_def)

lemma download_failed:
  "failed (archive w (length (requests st)) (MOD_DOWNLOAD_TEMPLATE (py_str aid))) \<Longrightarrow>
   download_and_hash w t mid aid ts st =
     Inr (st\<lparr>requests := requests st @ [MOD_DOWNLOAD_TEMPLATE (py_str aid)]\<rparr>)"
  by (auto simp: download_and_hash_def Let_def split: response.splits option.splits)

lemma fields_item1:
  "entry_fields item1 = Inr (JStr ''players'', JStr ''p1'', JStr ''a1'', JStr ''t1'')"
  by (simp add: entry_fields_def item1_def py_get_def)

section \<open>Entries whose download fails\<close>

text \<open>
  Claim C1, as stated: an entry whose download fails is skipped before bucketing, so that
  its JSON record is in no per-type catalog. The code puts the record into the bucket
  before it reads the cache: with the endpoint refusing the one archive of the sample
  catalog, the run still writes the entry to \<open>player.json\<close>, next to an empty hash file.
\<close>

theorem failed_download_record_written:
  "main refusing Map.empty =
     Inr \<lparr>writes = [(''player.json'', JsonDoc (JObj [(''k1'', item1)])),
                    (''player_hash.txt'', TextDoc [])],
          archive_requests = [''https://onb.keristero.com/mods/a1.zip'']\<rparr>"
  by (simp add: main_def refusing_def load_cache_def items_def process_entry_valid [OF fields_item1]
        initial_def py_get_def py_str_def cache_miss_def download_failed save_outputs_def
        MOD_DOWNLOAD_TEMPLATE_def bucketed_def new_type_def bucket_of_def get_singular_name_def)

text \<open>
  Claim C1, amended: an entry with both ids whose download fails (a status other than 200,
  or an exception in the \<open>try\<close> block) is still processed: its JSON record is in the
  bucket of its singular type, and no hash line is added to any bucket.
\<close>

theorem failed_download_still_bucketed:
  assumes "entry_fields item = Inr (JStr ty, mod_id, attachment_id, timestamp)"
      and "truthy mod_id" and "truthy attachment_id"
      and "aligned st"
      and "py_get (status_cache st) (py_str attachment_id) JNull = Inr cache_entry"
      and "cache_miss cache_entry timestamp = Inr True"
      and "failed (archive w (length (requests st)) (MOD_DOWNLOAD_TEMPLATE (py_str attachment_id)))"
  shows "\<exists>st'. process_entry w st (key, item) = Inr st'
           \<and> map_of (bucket_of st' (get_singular_name ty)) key = Some item
           \<and> (\<forall>t. lines_of st' t = lines_of st t)"
  using assms
  by (simp add: process_entry_valid download_failed bucket_of_bucketed)

theorem failed_download_still_bucketed_witness:
  "entry_fields item1 = Inr (JStr ''players'', JStr ''p1'', JStr ''a1'', JStr ''t1'')
   \<and> truthy (JStr ''p1'') \<and> truthy (JStr ''a1'')
   \<and> aligned (initial (JObj []))
   \<and> py_get (status_cache (initial (JObj []))) (py_str (JStr ''a1'')) JNull = Inr JNull
   \<and> cache_miss JNull (JStr ''t1'') = Inr True
   \<and> failed (archive refusing (length (requests (initial (JObj []))))
        (MOD_DOWNLOAD_TEMPLATE (py_str (JStr ''a1''))))
   \<and> (\<exists>st'. process_entry refusing (initial (JObj [])) (''k1'', item1) = Inr st'
           \<and> map_of (bucket_of st' (get_singular_name ''players'')) ''k1'' = Some item1
           \<and> (\<forall>t. lines_of st' t = lines_of (initial (JObj [])) t))"
proof -
  have h1: "truthy (JStr ''p1'')" and h2: "truthy (JStr ''a1'')" by simp_all
  have h3: "aligned (initial (JObj []))" by simp
  have h4: "py_get (status_cache (initial (JObj []))) (py_str (JStr ''a1'')) JNull = Inr JNull"
    by (simp add: initial_def py_get_def)
  have h5: "cache_miss JNull (JStr ''t1'') = Inr True" by (simp add: cache_miss_def)
  have h6: "failed (archive refusing (length (requests (initial (JObj []))))
        (MOD_DOWNLOAD_TEMPLATE (py_str (JStr ''a1''))))"
    by (simp add: refusing_def)
  note c = failed_download_still_bucketed [OF fields_item1 h1 h2 h3 h4 h5 h6, of "''k1''"]
  from fields_item1 h1 h2 h3 h4 h5 h6 c show ?thesis by (intro conjI)
qed

text \<open>
  Claim C5: when the download of an entry returns a status other than 200 or raises, the
  status cache is what it was before the attempt (no record added, changed or removed), and
  the attempt does not count as an update.
\<close>

theorem failed_download_cache_untouched:
  assumes "entry_fields item = Inr (JStr ty, mod_id, attachment_id, timestamp)"
      and "truthy mod_id" and "truthy attachment_id"
      and "py_get (status_cache st) (py_str attachment_id) JNull = Inr cache_entry"
      and "cache_miss cache_entry timestamp = Inr True"
      and "failed (archive w (length (requests st)) (MOD_DOWNLOAD_TEMPLATE (py_str attachment_id)))"
  shows "\<exists>st'. process_entry w st (key, item) = Inr st'
           \<and> status_cache st' = status_cache st \<and> updates_made st' = updates_made st"
  using assms
  by (simp add: process_entry_valid download_failed)

theorem failed_download_cache_untouched_witness:
  "entry_fields item1_moved = Inr (JStr ''players'', JStr ''p1'', JStr ''a1'', JStr ''t2'')
   \<and> truthy (JStr ''p1'') \<and> truthy (JStr ''a1'')
   \<and> py_get (status_cache (initial cache_no_md5)) (py_str (JStr ''a1'')) JNull
       = Inr (JObj [(''timestamp'', JStr ''t1''), (''md5'', JStr []), (''id'', JStr ''p1'')])
   \<and> cache_miss (JObj [(''timestamp'', JStr ''t1''), (''md5'', JStr []), (''id'', JStr ''p1'')])
        (JStr ''t2'') = Inr True
   \<and> failed (archive refusing (length (requests (initial cache_no_md5)))
        (MOD_DOWNLOAD_TEMPLATE (py_str (JStr ''a1''))))
   \<and> (\<exists>st'. process_entry refusing (initial cache_no_md5) (''k1'', item1_moved) = Inr st'
           \<and> status_cache st' = status_cache (initial cache_no_md5)
           \<and> updates_made st' = updates_made (initial cache_no_md5))"
proof -
  have h0: "entry_fields item1_moved = Inr (JStr ''players'', JStr ''p1'', JStr ''a1'', JStr ''t2'')"
    by (simp add: entry_fields_def py_get_def item1_moved_def)
  have h1: "truthy (JStr ''p1'')" and h2: "truthy (JStr ''a1'')" by simp_all
  have h4: "py_get (status_cache (initial cache_no_md5)) (py_str (JStr ''a1'')) JNull
       = Inr (JObj [(''timestamp'', JStr ''t1''), (''md5'', JStr []), (''id'', JStr ''p1'')])"
    by (simp add: initial_def py_get_def cache_no_md5_def py_str_def)
  have h5: "cache_miss (JObj [(''timestamp'', JStr ''t1''), (''md5'', JStr []), (''id'', JStr ''p1'')])
        (JStr ''t2'') = Inr True"
    by (simp add: cache_miss_def py_get_def)
  have h6: "failed (archive refusing (length (requests (initial cache_no_md5)))
        (MOD_DOWNLOAD_TEMPLATE (py_str (JStr ''a1''))))"
    by (simp add: refusing_def)
  note c = failed_download_cache_untouched [OF h0 h1 h2 h4 h5 h6, of "''k1''"]
  from h0 h1 h2 h4 h5 h6 c show ?thesis by (intro conjI)
qed

subsection \<open>What the hash line and the download block change\<close>

lemma add_hash_line_fields:
  assumes "add_hash_line t h mid st = Inr st'"
  shows "requests st' = requests st" "status_cache st' = status_cache st"
    "updates_made st' = updates_made st" "type_buckets st' = type_buckets st"
  using assms by (auto simp: add_hash_line_def split: if_splits option.splits)

lemma add_hash_line_lines:
  assumes "add_hash_line t h mid st = Inr st'"
  shows "lines_of st' t' =
     (if t' = t \<and> truthy h then lines_of st t @ [py_str h @ '' '' @ py_str mid]
      else lines_of st t')"
  using assms
  by (auto simp: add_hash_line_def lines_of_def AList.update_conv' split: if_splits option.splits)

lemma add_hash_line_keys:
  assumes "add_hash_line t h mid st = Inr st'"
  shows "fst ` set (hash_buckets st') = fst ` set (hash_buckets st)"
proof (cases "truthy h")
  case False
  with assms show ?thesis by (simp add: add_hash_line_def)
next
  case True
  with assms obtain ls where ls: "map_of (hash_buckets st) t = Some ls"
    and st': "st' = st\<lparr>hash_buckets :=
        AList.update t (ls @ [py_str h @ '' '' @ py_str mid]) (hash_buckets st)\<rparr>"
    by (auto simp: add_hash_line_def split: option.splits)
  from ls have "t \<in> fst ` set (hash_buckets st)"
    by (metis map_of_eq_None_iff option.distinct(1))
  then show ?thesis by (auto simp: st' AList.dom_update)
qed

lemma add_hash_line_aligned:
  assumes "add_hash_line t h mid st = Inr st'" "aligned st"
  shows "aligned st'"
  using assms add_hash_line_keys [OF assms(1)] add_hash_line_fields(4) [OF assms(1)]
  by (simp add: aligned_def)

lemma add_hash_line_total:
  "map_of (hash_buckets st) t \<noteq> None \<Longrightarrow> \<exists>st'. add_hash_line t h mid st = Inr st'"
  by (auto simp: add_hash_line_def)

lemma download_and_hash_cases:
  assumes "download_and_hash w t mid aid ts st = Inr st'"
  obtains
    (unchanged) "st' = st\<lparr>requests := requests st @ [MOD_DOWNLOAD_TEMPLATE (py_str aid)]\<rparr>"
      and "failed (archive w (length (requests st)) (MOD_DOWNLOAD_TEMPLATE (py_str aid)))
           \<or> (\<forall>records. status_cache st \<noteq> JObj records)"
  | (hashed) d records where
      "archive w (length (requests st)) (MOD_DOWNLOAD_TEMPLATE (py_str aid)) = Response 200 (Some d)"
      and "status_cache st = JObj records"
      and "add_hash_line t (JStr d) mid
             (st\<lparr>requests := requests st @ [MOD_DOWNLOAD_TEMPLATE (py_str aid)],
                  status_cache := JObj (AList.update (py_str aid) (stored ts d mid) records),
                  updates_made := True\<rparr>) = Inr st'"
  using assms
  by (auto simp: download_and_hash_def Let_def stored_def
           split: response.splits if_splits option.splits json.splits)

lemma download_and_hash_fields:
  assumes "download_and_hash w t mid aid ts st = Inr st'"
  shows "requests st' = requests st @ [MOD_DOWNLOAD_TEMPLATE (py_str aid)]"
    "type_buckets st' = type_buckets st"
  using assms
  by (cases rule: download_and_hash_cases; auto dest: add_hash_line_fields)+

lemma download_and_hash_lines:
  assumes "download_and_hash w t mid aid ts st = Inr st'" "t' \<noteq> t"
  shows "lines_of st' t' = lines_of st t'"
  using assms(1)
proof (cases rule: download_and_hash_cases)
  case unchanged
  then show ?thesis by simp
next
  case (hashed d records)
  from add_hash_line_lines [OF hashed(3), of t'] assms(2) show ?thesis
    by (simp add: lines_of_def)
qed

lemma download_and_hash_keys:
  assumes "download_and_hash w t mid aid ts st = Inr st'"
  shows "fst ` set (hash_buckets st') = fst ` set (hash_buckets st)"
  using assms
proof (cases rule: download_and_hash_cases)
  case unchanged
  then show ?thesis by simp
next
  case (hashed d records)
  from add_hash_line_keys [OF hashed(3)] show ?thesis by simp
qed

lemma download_and_hash_aligned:
  assumes "download_and_hash w t mid aid ts st = Inr st'" "aligned st"
  shows "aligned st'"
  using assms download_and_hash_keys [OF assms(1)] download_and_hash_fields(2) [OF assms(1)]
  by (simp add: aligned_def)

lemma valid_step:
  assumes "entry_fields item = Inr (JStr ty, mod_id, attachment_id, timestamp)"
      and "truthy mod_id" and "truthy attachment_id"
      and "aligned st"
      and "process_entry w st (key, item) = Inr st'"
  shows "type_buckets st' = type_buckets (bucketed (get_singular_name ty) key item st)"
    and "t' \<noteq> get_singular_name ty \<Longrightarrow> lines_of st' t' = lines_of st t'"
    and "aligned st'"
proof -
  let ?b = "bucketed (get_singular_name ty) key item st"
  from assms obtain ce miss where
    ce: "py_get (status_cache st) (py_str attachment_id) JNull = Inr ce"
    and miss: "cache_miss ce timestamp = Inr miss"
    and rest: "(if miss
       then download_and_hash w (get_singular_name ty) mod_id attachment_id timestamp ?b
       else bnd (py_get ce ''md5'' JNull) (\<lambda>current_md5.
              add_hash_line (get_singular_name ty) current_md5 mod_id ?b)) = Inr st'"
    by (auto simp: process_entry_valid bnd_eq_Inr)
  have al: "aligned ?b" using assms(4) by simp
  show "type_buckets st' = type_buckets ?b"
    using rest by (auto simp: bnd_eq_Inr split: if_splits
        dest: download_and_hash_fields add_hash_line_fields)
  show "aligned st'"
    using rest al by (auto simp: bnd_eq_Inr split: if_splits
        dest: download_and_hash_aligned add_hash_line_aligned)
  show "lines_of st' t' = lines_of st t'" if "t' \<noteq> get_singular_name ty"
    using rest that assms(4)
    by (auto simp: bnd_eq_Inr split: if_splits
        dest!: download_and_hash_lines [where t' = t'] add_hash_line_lines [where t' = t'])
qed


lemma bucket_of_cong: "type_buckets st' = type_buckets st \<Longrightarrow> bucket_of st' t = bucket_of st t"
  by (simp add: bucket_of_def)


section \<open>The decision between download and cached hash\<close>

text \<open>What a pass of the loop body that returns has done with the cache record.\<close>

lemma step_decision:
  assumes "entry_fields item = Inr (JStr ty, mod_id, attachment_id, timestamp)"
      and "truthy mod_id" and "truthy attachment_id"
      and "aligned st"
      and "py_get (status_cache st) (py_str attachment_id) JNull = Inr cache_entry"
      and "process_entry w st (key, item) = Inr st'"
  shows "((requests st' = requests st @ [MOD_DOWNLOAD_TEMPLATE (py_str attachment_id)])
            = (\<not> truthy cache_entry \<or> \<not> py_eq (stamp_of cache_entry) timestamp))
         \<and> ((requests st' = requests st)
            = (truthy cache_entry \<and> py_eq (stamp_of cache_entry) timestamp))
         \<and> (truthy cache_entry \<and> py_eq (stamp_of cache_entry) timestamp \<longrightarrow>
              lines_of st' (get_singular_name ty) =
                lines_of st (get_singular_name ty)
                @ (if truthy (md5_of cache_entry)
                   then [py_str (md5_of cache_entry) @ '' '' @ py_str mod_id] else []))"
proof -
  let ?b = "bucketed (get_singular_name ty) key item st"
  from assms obtain miss where
    miss: "cache_miss cache_entry timestamp = Inr miss"
    and rest: "(if miss
       then download_and_hash w (get_singular_name ty) mod_id attachment_id timestamp ?b
       else bnd (py_get cache_entry ''md5'' JNull) (\<lambda>current_md5.
              add_hash_line (get_singular_name ty) current_md5 mod_id ?b)) = Inr st'"
    by (auto simp: process_entry_valid bnd_eq_Inr)
  from miss have m: "miss = (\<not> truthy cache_entry \<or> \<not> py_eq (stamp_of cache_entry) timestamp)"
    by (auto simp: cache_miss_def stamp_of_def bnd_eq_Inr split: if_splits)
  show ?thesis
  proof (cases miss)
    case True
    with rest have "requests st' = requests st @ [MOD_DOWNLOAD_TEMPLATE (py_str attachment_id)]"
      by (auto dest: download_and_hash_fields)
    with True m show ?thesis by auto
  next
    case False
    with rest obtain h where h: "py_get cache_entry ''md5'' JNull = Inr h"
      and add: "add_hash_line (get_singular_name ty) h mod_id ?b = Inr st'"
      by (auto simp: bnd_eq_Inr)
    from h have md5: "md5_of cache_entry = h" by (simp add: md5_of_def)
    from add_hash_line_fields(1) [OF add] have r: "requests st' = requests st" by simp
    from add_hash_line_lines [OF add, of "get_singular_name ty"] assms(4)
    have l: "lines_of st' (get_singular_name ty) =
                lines_of st (get_singular_name ty)
                @ (if truthy h then [py_str h @ '' '' @ py_str mod_id] else [])"
      by simp
    from False m r l md5 show ?thesis by auto
  qed
qed


text \<open>
  The loop body returns for an entry with both ids and a string for its type, when what the
  cache holds under the attachment id is falsy or a dict.
\<close>

lemma download_and_hash_total:
  "map_of (hash_buckets st) t \<noteq> None \<Longrightarrow> \<exists>st'. download_and_hash w t mid aid ts st = Inr st'"
  by (auto simp: download_and_hash_def Let_def add_hash_line_def
           split: response.splits option.splits json.splits)

lemma valid_step_returns:
  assumes "entry_fields item = Inr (JStr ty, mod_id, attachment_id, timestamp)"
      and "truthy mod_id" and "truthy attachment_id"
      and "aligned st"
      and "py_get (status_cache st) (py_str attachment_id) JNull = Inr cache_entry"
      and "\<not> truthy cache_entry \<or> is_dict cache_entry"
  shows "\<exists>st'. process_entry w st (key, item) = Inr st'"
proof -
  let ?T = "get_singular_name ty"
  let ?b = "bucketed ?T key item st"
  from hash_bucket_bucketed [OF assms(4), of ?T key item]
  have hb: "map_of (hash_buckets ?b) ?T \<noteq> None" by simp
  from assms(6) have "\<exists>miss. cache_miss cache_entry timestamp = Inr miss"
    by (cases cache_entry) (auto simp: cache_miss_def py_get_def)
  then obtain miss where miss: "cache_miss cache_entry timestamp = Inr miss" by blast
  show ?thesis
  proof (cases miss)
    case True
    with download_and_hash_total [OF hb, of w mod_id attachment_id timestamp] assms(5) miss
    show ?thesis by (simp add: process_entry_valid [OF assms(1-3)])
  next
    case False
    with miss have "truthy cache_entry" by (auto simp: cache_miss_def split: if_splits)
    with assms(6) obtain h where h: "py_get cache_entry ''md5'' JNull = Inr h"
      by (cases cache_entry) (auto simp: py_get_def)
    from add_hash_line_total [OF hb, of h mod_id] assms(5) miss False h
    show ?thesis by (simp add: process_entry_valid [OF assms(1-3)])
  qed
qed

lemma fields_item_no_stamp:
  "entry_fields item_no_stamp = Inr (JStr ''players'', JStr ''p1'', JStr ''a1'', JNull)"
  by (simp add: entry_fields_def item_no_stamp_def py_get_def)

text \<open>
  Claim C2, as stated: a download is attempted exactly when the cache has no record for the
  attachment id or the cached timestamp differs from the remote one. With the empty record
  \<open>{}\<close> stored for "a1" and an entry that has no timestamp, there is a record, and its
  timestamp (none) is equal to the remote one (none); the run requests the archive all the
  same, since the code takes the miss branch for every falsy record.
\<close>

theorem empty_record_downloaded:
  "with_empty_record STATUS_FILE = Some (JsonDoc (JObj [(''a1'', JObj [])]))
   \<and> entry_fields item_no_stamp = Inr (JStr ''players'', JStr ''p1'', JStr ''a1'', JNull)
   \<and> py_eq (stamp_of (JObj [])) JNull
   \<and> main stampless with_empty_record = Inr stampless_run
   \<and> archive_requests stampless_run = [''https://onb.keristero.com/mods/a1.zip'']"
  by (simp add: fields_item_no_stamp with_empty_record_def stamp_of_def stampless_run_def
        main_def stampless_def load_cache_def items_def initial_def py_get_def py_str_def
        cache_miss_def download_and_hash_def add_hash_line_def save_outputs_def
        MOD_DOWNLOAD_TEMPLATE_def bucketed_def new_type_def bucket_of_def
        get_singular_name_def STATUS_FILE_def process_entry_valid [OF fields_item_no_stamp])

text \<open>
  Claim C2, amended: for an entry with both ids, where the cache holds nothing, a falsy
  value or a dict under the attachment id, the loop body returns, and it requests the archive
  if and only if \<open>status_cache.get\<close> gives a falsy value (nothing stored, null, an empty
  record) or the timestamp of the record differs from the remote one under Python's
  equality. Otherwise no request is made, and the hash line of the entry is built from the
  \<open>md5\<close> of the record (when that is not empty, see C8).
\<close>

theorem download_iff_miss:
  assumes "entry_fields item = Inr (JStr ty, mod_id, attachment_id, timestamp)"
      and "truthy mod_id" and "truthy attachment_id"
      and "aligned st"
      and "py_get (status_cache st) (py_str attachment_id) JNull = Inr cache_entry"
      and "\<not> truthy cache_entry \<or> is_dict cache_entry"
  shows "\<exists>st'. process_entry w st (key, item) = Inr st'
         \<and> ((requests st' = requests st @ [MOD_DOWNLOAD_TEMPLATE (py_str attachment_id)])
            = (\<not> truthy cache_entry \<or> \<not> py_eq (stamp_of cache_entry) timestamp))
         \<and> ((requests st' = requests st)
            = (truthy cache_entry \<and> py_eq (stamp_of cache_entry) timestamp))
         \<and> (truthy cache_entry \<and> py_eq (stamp_of cache_entry) timestamp \<longrightarrow>
              lines_of st' (get_singular_name ty) =
                lines_of st (get_singular_name ty)
                @ (if truthy (md5_of cache_entry)
                   then [py_str (md5_of cache_entry) @ '' '' @ py_str mod_id] else []))"
proof -
  from valid_step_returns [OF assms, of w key]
  obtain st' where s: "process_entry w st (key, item) = Inr st'" by blast
  from step_decision [OF assms(1-5) s] s show ?thesis by blast
qed

theorem download_iff_miss_witness:
  "entry_fields item1 = Inr (JStr ''players'', JStr ''p1'', JStr ''a1'', JStr ''t1'')
   \<and> truthy (JStr ''p1'') \<and> truthy (JStr ''a1'')
   \<and> aligned (initial (JObj []))
   \<and> py_get (status_cache (initial (JObj []))) (py_str (JStr ''a1'')) JNull = Inr JNull
   \<and> \<not> truthy JNull
   \<and> (\<exists>st'. process_entry serving (initial (JObj [])) (''k1'', item1) = Inr st'
         \<and> requests st' = requests (initial (JObj []))
              @ [MOD_DOWNLOAD_TEMPLATE (py_str (JStr ''a1''))])
   \<and> aligned (initial cache1)
   \<and> py_get (status_cache (initial cache1)) (py_str (JStr ''a1'')) JNull = Inr record1
   \<and> is_dict record1
   \<and> truthy record1 \<and> py_eq (stamp_of record1) (JStr ''t1'')
   \<and> (\<exists>st'. process_entry refusing (initial cache1) (''k1'', item1) = Inr st'
         \<and> requests st' = requests (initial cache1)
         \<and> lines_of st' (get_singular_name ''players'') =
              lines_of (initial cache1) (get_singular_name ''players'')
              @ (if truthy (md5_of record1)
                 then [py_str (md5_of record1) @ '' '' @ py_str (JStr ''p1'')] else []))"
proof -
  have h1: "truthy (JStr ''p1'')" and h2: "truthy (JStr ''a1'')" by simp_all
  have m3: "aligned (initial (JObj []))" by simp
  have m4: "py_get (status_cache (initial (JObj []))) (py_str (JStr ''a1'')) JNull = Inr JNull"
    by (simp add: initial_def py_get_def)
  have m5: "\<not> truthy JNull" by simp
  then have m5': "\<not> truthy JNull \<or> is_dict JNull" by simp
  note cm = download_iff_miss [OF fields_item1 h1 h2 m3 m4 m5', of serving "''k1''"]
  from cm m5 have cm': "\<exists>st'. process_entry serving (initial (JObj [])) (''k1'', item1) = Inr st'
         \<and> requests st' = requests (initial (JObj []))
              @ [MOD_DOWNLOAD_TEMPLATE (py_str (JStr ''a1''))]"
    by blast
  have t3: "aligned (initial cache1)" by simp
  have t4: "py_get (status_cache (initial cache1)) (py_str (JStr ''a1'')) JNull = Inr record1"
    by (simp add: initial_def py_get_def cache1_def py_str_def)
  have t5: "is_dict record1" by (simp add: record1_def)
  then have t5': "\<not> truthy record1 \<or> is_dict record1" by simp
  have hit: "truthy record1 \<and> py_eq (stamp_of record1) (JStr ''t1'')"
    by (simp add: record1_def stamp_of_def py_get_def)
  note ch = download_iff_miss [OF fields_item1 h1 h2 t3 t4 t5', of refusing "''k1''"]
  from ch hit have ch': "\<exists>st'. process_entry refusing (initial cache1) (''k1'', item1) = Inr st'
         \<and> requests st' = requests (initial cache1)
         \<and> lines_of st' (get_singular_name ''players'') =
              lines_of (initial cache1) (get_singular_name ''players'')
              @ (if truthy (md5_of record1)
                 then [py_str (md5_of record1) @ '' '' @ py_str (JStr ''p1'')] else [])"
    by blast
  from fields_item1 h1 h2 m3 m4 m5 cm' t3 t4 t5 hit ch' show ?thesis by (intro conjI) blast+
qed

text \<open>
  Claim C8: when the record of the attachment id carries the remote timestamp but no usable
  \<open>md5\<close> (missing, null, empty), the loop body requests nothing, adds no hash line, puts
  the JSON record of the entry into the bucket of its type, and leaves the cache as it is.
\<close>

theorem hit_without_md5:
  assumes "entry_fields item = Inr (JStr ty, mod_id, attachment_id, timestamp)"
      and "truthy mod_id" and "truthy attachment_id"
      and "aligned st"
      and "py_get (status_cache st) (py_str attachment_id) JNull = Inr (JObj record)"
      and "map_of record ''timestamp'' = Some cached"
      and "py_eq cached timestamp"
      and "\<not> truthy (case map_of record ''md5'' of None \<Rightarrow> JNull | Some h \<Rightarrow> h)"
  shows "\<exists>st'. process_entry w st (key, item) = Inr st'
           \<and> requests st' = requests st
           \<and> (\<forall>t. lines_of st' t = lines_of st t)
           \<and> map_of (bucket_of st' (get_singular_name ty)) key = Some item
           \<and> status_cache st' = status_cache st \<and> updates_made st' = updates_made st"
proof -
  from assms(6) have "record \<noteq> []" by auto
  with assms show ?thesis
    by (simp add: process_entry_valid cache_miss_def py_get_def add_hash_line_def
                  bucket_of_bucketed)
qed


theorem hit_without_md5_witness:
  "entry_fields item1 = Inr (JStr ''players'', JStr ''p1'', JStr ''a1'', JStr ''t1'')
   \<and> truthy (JStr ''p1'') \<and> truthy (JStr ''a1'')
   \<and> aligned (initial cache_no_md5)
   \<and> py_get (status_cache (initial cache_no_md5)) (py_str (JStr ''a1'')) JNull
       = Inr (JObj [(''timestamp'', JStr ''t1''), (''md5'', JStr []), (''id'', JStr ''p1'')])
   \<and> map_of [(''timestamp'', JStr ''t1''), (''md5'', JStr []), (''id'', JStr ''p1'')] ''timestamp''
       = Some (JStr ''t1'')
   \<and> py_eq (JStr ''t1'') (JStr ''t1'')
   \<and> \<not> truthy (case map_of [(''timestamp'', JStr ''t1''), (''md5'', JStr []), (''id'', JStr ''p1'')]
                    ''md5'' of None \<Rightarrow> JNull | Some h \<Rightarrow> h)
   \<and> (\<exists>st'. process_entry serving (initial cache_no_md5) (''k1'', item1) = Inr st'
           \<and> requests st' = requests (initial cache_no_md5)
           \<and> (\<forall>t. lines_of st' t = lines_of (initial cache_no_md5) t)
           \<and> map_of (bucket_of st' (get_singular_name ''players'')) ''k1'' = Some item1
           \<and> status_cache st' = status_cache (initial cache_no_md5)
           \<and> updates_made st' = updates_made (initial cache_no_md5))"
proof -
  let ?r = "[(''timestamp'', JStr ''t1''), (''md5'', JStr []), (''id'', JStr ''p1'')]"
  have h1: "truthy (JStr ''p1'')" and h2: "truthy (JStr ''a1'')" by simp_all
  have h3: "aligned (initial cache_no_md5)" by simp
  have h4: "py_get (status_cache (initial cache_no_md5)) (py_str (JStr ''a1'')) JNull = Inr (JObj ?r)"
    by (simp add: initial_def py_get_def cache_no_md5_def py_str_def)
  have h5: "map_of ?r ''timestamp'' = Some (JStr ''t1'')" by simp
  have h6: "py_eq (JStr ''t1'') (JStr ''t1'')" by simp
  have h7: "\<not> truthy (case map_of ?r ''md5'' of None \<Rightarrow> JNull | Some h \<Rightarrow> h)" by simp
  note c = hit_without_md5 [OF fields_item1 h1 h2 h3 h4 h5 h6 h7, of serving "''k1''"]
  from fields_item1 h1 h2 h3 h4 h5 h6 h7 c show ?thesis by (intro conjI)
qed

section \<open>Entries that are skipped, entries without a type\<close>

text \<open>
  Claim C9: an entry whose mod id or attachment id is there but falsy (empty string, zero,
  null, ...) is handled like one where the field is missing: the loop body returns the state
  it was given, so the entry adds no JSON record, no hash line, no cache record and no
  request.
\<close>

theorem falsy_ids_skipped:
  assumes "py_get item ''data'' (JObj []) = Inr (JObj d)"
      and "py_get item ''attachment_data'' (JObj []) = Inr (JObj a)"
      and "(case map_of d ''id'' of None \<Rightarrow> True | Some v \<Rightarrow> \<not> truthy v)
           \<or> (case map_of a ''attachment_id'' of None \<Rightarrow> True | Some v \<Rightarrow> \<not> truthy v)"
  shows "process_entry w st (key, item) = Inr st"
  using assms
  by (auto simp: process_entry_def entry_fields_def py_get_def split: option.splits)


theorem falsy_ids_skipped_witness:
  "py_get item_empty_id ''data'' (JObj [])
     = Inr (JObj [(''type'', JStr ''players''), (''id'', JStr [])])
   \<and> py_get item_empty_id ''attachment_data'' (JObj [])
     = Inr (JObj [(''attachment_id'', JStr ''a1''), (''timestamp'', JStr ''t1'')])
   \<and> ((case map_of [(''type'', JStr ''players''), (''id'', JStr [])] ''id'' of
          None \<Rightarrow> True | Some v \<Rightarrow> \<not> truthy v)
       \<or> (case map_of [(''attachment_id'', JStr ''a1''), (''timestamp'', JStr ''t1'')]
             ''attachment_id'' of None \<Rightarrow> True | Some v \<Rightarrow> \<not> truthy v))
   \<and> process_entry serving (initial (JObj [])) (''k1'', item_empty_id) = Inr (initial (JObj []))"
proof -
  have h1: "py_get item_empty_id ''data'' (JObj [])
     = Inr (JObj [(''type'', JStr ''players''), (''id'', JStr [])])"
    by (simp add: py_get_def item_empty_id_def)
  have h2: "py_get item_empty_id ''attachment_data'' (JObj [])
     = Inr (JObj [(''attachment_id'', JStr ''a1''), (''timestamp'', JStr ''t1'')])"
    by (simp add: py_get_def item_empty_id_def)
  have h3: "(case map_of [(''type'', JStr ''players''), (''id'', JStr [])] ''id'' of
          None \<Rightarrow> True | Some v \<Rightarrow> \<not> truthy v)
       \<or> (case map_of [(''attachment_id'', JStr ''a1''), (''timestamp'', JStr ''t1'')]
             ''attachment_id'' of None \<Rightarrow> True | Some v \<Rightarrow> \<not> truthy v)"
    by simp
  note c = falsy_ids_skipped [OF h1 h2 h3, of serving "initial (JObj [])" "''k1''"]
  from h1 h2 h3 c show ?thesis by (intro conjI)
qed

text \<open>
  Claim C10: an entry with both ids whose data has no \<open>type\<close> field is processed under
  the type name "unknown", which \<open>get_singular_name\<close> returns as it is: its JSON record is
  in the bucket "unknown", and the buckets and hash lines of every other type are what they
  were, so a hash line of the entry can only be in the hash bucket "unknown".
\<close>

theorem missing_type_is_unknown:
  assumes "py_get item ''data'' (JObj []) = Inr (JObj d)"
      and "map_of d ''type'' = None"
      and "entry_fields item = Inr (mod_type, mod_id, attachment_id, timestamp)"
      and "truthy mod_id" and "truthy attachment_id"
      and "aligned st"
      and "process_entry w st (key, item) = Inr st'"
  shows "mod_type = JStr ''unknown'' \<and> get_singular_name ''unknown'' = ''unknown''
         \<and> map_of (bucket_of st' ''unknown'') key = Some item
         \<and> (\<forall>t. t \<noteq> ''unknown'' \<longrightarrow>
               bucket_of st' t = bucket_of st t \<and> lines_of st' t = lines_of st t)"
proof -
  from assms(1-3) have ty: "mod_type = JStr ''unknown''"
    by (auto simp: entry_fields_def bnd_eq_Inr py_get_def split: json.splits)
  have sg: "get_singular_name ''unknown'' = ''unknown''"
    by (simp add: get_singular_name_def)
  note step = valid_step [OF assms(3) [unfolded ty] assms(4-7), unfolded sg]
  from step(1) have b: "bucket_of st' t = bucket_of (bucketed ''unknown'' key item st) t" for t
    by (rule bucket_of_cong)
  show ?thesis using ty sg b step(2) by (simp add: bucket_of_bucketed)
qed


theorem missing_type_is_unknown_witness:
  "py_get item_untyped ''data'' (JObj []) = Inr (JObj [(''id'', JStr ''p1'')])
   \<and> map_of [(''id'', JStr ''p1'')] ''type'' = None
   \<and> entry_fields item_untyped = Inr (JStr ''unknown'', JStr ''p1'', JStr ''a1'', JStr ''t1'')
   \<and> truthy (JStr ''p1'') \<and> truthy (JStr ''a1'')
   \<and> aligned (initial (JObj []))
   \<and> process_entry serving (initial (JObj [])) (''k1'', item_untyped) = Inr after_untyped
   \<and> map_of (bucket_of after_untyped ''unknown'') ''k1'' = Some item_untyped
   \<and> bucket_of after_untyped ''player'' = bucket_of (initial (JObj [])) ''player''
   \<and> lines_of after_untyped ''player'' = lines_of (initial (JObj [])) ''player''"
proof -
  have h1: "py_get item_untyped ''data'' (JObj []) = Inr (JObj [(''id'', JStr ''p1'')])"
    by (simp add: py_get_def item_untyped_def)
  have h2: "map_of [(''id'', JStr ''p1'')] ''type'' = None" by simp
  have h3: "entry_fields item_untyped = Inr (JStr ''unknown'', JStr ''p1'', JStr ''a1'', JStr ''t1'')"
    by (simp add: entry_fields_def item_untyped_def py_get_def)
  have h4: "truthy (JStr ''p1'')" and h5: "truthy (JStr ''a1'')" by simp_all
  have h6: "aligned (initial (JObj []))" by simp
  have h7: "process_entry serving (initial (JObj [])) (''k1'', item_untyped) = Inr after_untyped"
    by (simp add: process_entry_valid [OF h3] initial_def py_get_def py_str_def cache_miss_def
          download_and_hash_def serving_def add_hash_line_def bucketed_def new_type_def
          bucket_of_def get_singular_name_def after_untyped_def MOD_DOWNLOAD_TEMPLATE_def)
  note c = missing_type_is_unknown [OF h1 h2 h3 h4 h5 h6 h7]
  from c have c1: "map_of (bucket_of after_untyped ''unknown'') ''k1'' = Some item_untyped"
    by blast
  from c have c2: "bucket_of after_untyped ''player'' = bucket_of (initial (JObj [])) ''player''"
    and c3: "lines_of after_untyped ''player'' = lines_of (initial (JObj [])) ''player''"
    by simp_all
  from h1 h2 h3 h4 h5 h6 h7 c1 c2 c3 show ?thesis by (intro conjI)
qed

section \<open>The buckets over a whole pass\<close>

lemma lines_of_upd [simp]:
  "lines_of (st\<lparr>requests := r, status_cache := c, updates_made := u\<rparr>) t = lines_of st t"
  by (simp add: lines_of_def)

lemma valid_step_lines:
  assumes "entry_fields item = Inr (JStr ty, mod_id, attachment_id, timestamp)"
      and "truthy mod_id" and "truthy attachment_id"
      and "aligned st"
      and "process_entry w st (key, item) = Inr st'"
  shows "lines_of st' (get_singular_name ty) = lines_of st (get_singular_name ty)
         \<or> (\<exists>l. lines_of st' (get_singular_name ty) = lines_of st (get_singular_name ty) @ [l])"
proof -
  let ?T = "get_singular_name ty"
  let ?b = "bucketed ?T key item st"
  from assms obtain ce miss where
    rest: "(if miss
       then download_and_hash w ?T mod_id attachment_id timestamp ?b
       else bnd (py_get ce ''md5'' JNull) (\<lambda>current_md5.
              add_hash_line ?T current_md5 mod_id ?b)) = Inr st'"
    by (auto simp: process_entry_valid bnd_eq_Inr)
  show ?thesis
  proof (cases miss)
    case False
    with rest obtain h where "add_hash_line ?T h mod_id ?b = Inr st'"
      by (auto simp: bnd_eq_Inr)
    from add_hash_line_lines [OF this, of ?T] assms(4) show ?thesis by auto
  next
    case True
    with rest have "download_and_hash w ?T mod_id attachment_id timestamp ?b = Inr st'" by simp
    then show ?thesis
    proof (cases rule: download_and_hash_cases)
      case unchanged
      with assms(4) show ?thesis by simp
    next
      case (hashed d records)
      from add_hash_line_lines [OF hashed(3), of ?T] assms(4) show ?thesis
        by auto
    qed
  qed
qed

text \<open>What one pass of the loop body does to the JSON buckets.\<close>

lemma step_buckets:
  assumes "process_entry w st (key, item) = Inr st'" and "aligned st"
  shows "aligned st'"
    and "bucket_of st' t =
           (if bucket_name item = Some t then AList.update key item (bucket_of st t)
            else bucket_of st t)"
    and "length (lines_of st' t) \<le> length (lines_of st t) + (if bucket_name item = Some t then 1 else 0)"
proof -
  from assms(1) obtain mt mid aid ts where f: "entry_fields item = Inr (mt, mid, aid, ts)"
    by (auto simp: process_entry_def bnd_eq_Inr)
  show "aligned st'"
    and "bucket_of st' t =
           (if bucket_name item = Some t then AList.update key item (bucket_of st t)
            else bucket_of st t)"
    and "length (lines_of st' t) \<le> length (lines_of st t) + (if bucket_name item = Some t then 1 else 0)"
  proof (atomize (full), cases "truthy mid \<and> truthy aid")
    case False
    with f assms show "aligned st' \<and>
     bucket_of st' t =
           (if bucket_name item = Some t then AList.update key item (bucket_of st t)
            else bucket_of st t) \<and>
     length (lines_of st' t) \<le> length (lines_of st t) + (if bucket_name item = Some t then 1 else 0)"
      by (auto simp: process_entry_def bucket_name_def)
  next
    case True
    with f assms(1) obtain ty where ty: "mt = JStr ty"
      by (cases mt) (auto simp: process_entry_def str_receiver_def)
    from True f ty have bn: "bucket_name item = Some (get_singular_name ty)"
      by (simp add: bucket_name_def)
    from True have t1: "truthy mid" and t2: "truthy aid" by simp_all
    note vs = valid_step [OF f [unfolded ty] t1 t2 assms(2) assms(1)]
    note vl = valid_step_lines [OF f [unfolded ty] t1 t2 assms(2) assms(1)]
    from vs(1) have b: "bucket_of st' t = bucket_of (bucketed (get_singular_name ty) key item st) t"
      by (rule bucket_of_cong)
    show "aligned st' \<and>
     bucket_of st' t =
           (if bucket_name item = Some t then AList.update key item (bucket_of st t)
            else bucket_of st t) \<and>
     length (lines_of st' t) \<le> length (lines_of st t) + (if bucket_name item = Some t then 1 else 0)"
      using vs(3) b bn vl vs(2) [of t] by (auto simp: bucket_of_bucketed)
  qed
qed

lemma update_keys_set: "fst ` set (AList.update k v al) = insert k (fst ` set al)"
  by (simp add: AList.dom_update)

lemma process_all_aligned:
  "process_all w st es = Inr st' \<Longrightarrow> aligned st \<Longrightarrow> aligned st'"
proof (induction es arbitrary: st)
  case Nil then show ?case by simp
next
  case (Cons e es)
  obtain k item where e: "e = (k, item)" by (cases e)
  from Cons.prems(1) obtain st1 where s1: "process_entry w st (k, item) = Inr st1"
    and r: "process_all w st1 es = Inr st'" by (auto simp: e bnd_eq_Inr)
  from step_buckets(1) [OF s1 Cons.prems(2)] Cons.IH [OF r] show ?case by simp
qed




lemma bucket_of_initial [simp]: "bucket_of (initial c) t = []"
  and lines_of_initial [simp]: "lines_of (initial c) t = []"
  by (simp_all add: bucket_of_def lines_of_def initial_def)



lemma bucket_name_item1: "bucket_name item1 = Some ''player''"
  by (simp add: bucket_name_def fields_item1 get_singular_name_def)

lemma pass_item1_hit: "process_all refusing (initial cache1) [(''k1'', item1)] = Inr after_hit"
  by (simp add: process_entry_valid [OF fields_item1] initial_def py_get_def cache1_def
        record1_def py_str_def cache_miss_def add_hash_line_def bucketed_def new_type_def
        bucket_of_def get_singular_name_def after_hit_def)





lemma length_update_fresh:
  "k \<notin> fst ` set al \<Longrightarrow> length (AList.update k v al) = Suc (length al)"
  by (induction al) auto

lemma process_all_lines_bound:
  "process_all w st es = Inr st' \<Longrightarrow> aligned st \<Longrightarrow> distinct (map fst es) \<Longrightarrow>
   fst ` set (bucket_of st t) \<inter> fst ` set es = {} \<Longrightarrow>
   length (lines_of st t) \<le> length (bucket_of st t) \<Longrightarrow>
   length (lines_of st' t) \<le> length (bucket_of st' t)"
proof (induction es arbitrary: st)
  case Nil then show ?case by simp
next
  case (Cons e es)
  obtain k item where e: "e = (k, item)" by (cases e)
  from Cons.prems(1) obtain st1 where s1: "process_entry w st (k, item) = Inr st1"
    and r: "process_all w st1 es = Inr st'" by (auto simp: e bnd_eq_Inr)
  note sb = step_buckets [OF s1 Cons.prems(2)]
  from Cons.prems(3) have d: "distinct (map fst es)" and nin: "k \<notin> fst ` set es"
    by (auto simp: e)
  from Cons.prems(4) have fresh: "k \<notin> fst ` set (bucket_of st t)"
    and disj: "fst ` set (bucket_of st t) \<inter> fst ` set es = {}"
    by (auto simp: e)
  have disj1: "fst ` set (bucket_of st1 t) \<inter> fst ` set es = {}"
    using sb(2) [of t] disj nin by (auto simp: update_keys_set split: if_splits)
  have bound1: "length (lines_of st1 t) \<le> length (bucket_of st1 t)"
    using sb(2) [of t] sb(3) [of t] Cons.prems(5) fresh
    by (auto simp: length_update_fresh split: if_splits)
  from Cons.IH [OF r sb(1) d disj1 bound1] show ?case .
qed

lemma step_line_needs_hash:
  assumes "process_entry w st (key, item) = Inr st'" and "aligned st"
      and "lines_of st' t \<noteq> lines_of st t"
  shows "has_hash w st item"
proof -
  from assms(1) obtain mt mid aid ts where f: "entry_fields item = Inr (mt, mid, aid, ts)"
    by (auto simp: process_entry_def bnd_eq_Inr)
  from f assms(1,3) have tr: "truthy mid" "truthy aid"
    by (auto simp: process_entry_def split: if_splits)
  with f assms(1) obtain ty where ty: "mt = JStr ty"
    by (cases mt) (auto simp: process_entry_def str_receiver_def)
  let ?T = "get_singular_name ty"
  let ?b = "bucketed ?T key item st"
  note f' = f [unfolded ty]
  from valid_step(2) [OF f' tr assms(2) assms(1), of t] assms(3) have t: "t = ?T" by auto
  from assms(1) f' tr obtain ce miss where
    ce: "py_get (status_cache st) (py_str aid) JNull = Inr ce"
    and miss: "cache_miss ce ts = Inr miss"
    and rest: "(if miss
       then download_and_hash w ?T mid aid ts ?b
       else bnd (py_get ce ''md5'' JNull) (\<lambda>current_md5.
              add_hash_line ?T current_md5 mid ?b)) = Inr st'"
    by (auto simp: process_entry_valid bnd_eq_Inr)
  from miss have m: "miss = (\<not> (truthy ce \<and> py_eq (stamp_of ce) ts))"
    by (auto simp: cache_miss_def stamp_of_def bnd_eq_Inr split: if_splits)
  show ?thesis
  proof (cases miss)
    case False
    with rest obtain h where h: "py_get ce ''md5'' JNull = Inr h"
      and add: "add_hash_line ?T h mid ?b = Inr st'"
      by (auto simp: bnd_eq_Inr)
    from add_hash_line_lines [OF add, of ?T] assms(2,3) t have "truthy h"
      by (auto split: if_splits)
    with False m h f ce show ?thesis by (simp add: has_hash_def md5_of_def)
  next
    case True
    with rest have "download_and_hash w ?T mid aid ts ?b = Inr st'" by simp
    then show ?thesis
    proof (cases rule: download_and_hash_cases)
      case unchanged
      with assms(2,3) show ?thesis by simp
    next
      case (hashed d records)
      from add_hash_line_lines [OF hashed(3), of ?T] assms(2,3) t have "d \<noteq> []"
        by (auto split: if_splits)
      with True m hashed(1) f ce show ?thesis by (auto simp: has_hash_def)
    qed
  qed
qed

text \<open>
  Claim C7: after a pass, no type has more hash lines than JSON entries; and a pass of the
  loop body changes the hash lines of a type only for an entry with a content hash at hand
  (cached or just computed), so an entry that is skipped, or whose download fails, adds no
  line.
\<close>

theorem hash_lines_bounded:
  assumes "distinct (map fst entries)"
      and "process_all w (initial c) entries = Inr st"
  shows "length (lines_of st t) \<le> length (bucket_of st t)
         \<and> (\<forall>st0 st1 key item t'.
               aligned st0 \<and> process_entry w st0 (key, item) = Inr st1
               \<and> lines_of st1 t' \<noteq> lines_of st0 t' \<longrightarrow> has_hash w st0 item)"
  using process_all_lines_bound [OF assms(2) aligned_initial assms(1), of t]
    step_line_needs_hash by auto

theorem hash_lines_bounded_witness:
  "distinct (map fst [(''k1'', item1)])
   \<and> process_all refusing (initial cache1) [(''k1'', item1)] = Inr after_hit
   \<and> length (lines_of after_hit ''player'') \<le> length (bucket_of after_hit ''player'')
   \<and> aligned (initial cache1)
   \<and> process_entry refusing (initial cache1) (''k1'', item1) = Inr after_hit
   \<and> lines_of after_hit ''player'' \<noteq> lines_of (initial cache1) ''player''
   \<and> has_hash refusing (initial cache1) item1"
proof -
  have h1: "distinct (map fst [(''k1'', item1)])" by simp
  have h3: "aligned (initial cache1)" by simp
  have h4: "process_entry refusing (initial cache1) (''k1'', item1) = Inr after_hit"
    using pass_item1_hit by (simp add: bnd_eq_Inr)
  have h5: "lines_of after_hit ''player'' \<noteq> lines_of (initial cache1) ''player''"
    by (simp add: lines_of_def after_hit_def initial_def)
  note c = hash_lines_bounded [OF h1 pass_item1_hit, of "''player''"]
  from c have c1: "length (lines_of after_hit ''player'') \<le> length (bucket_of after_hit ''player'')"
    by blast
  from c h3 h4 h5 have c2: "has_hash refusing (initial cache1) item1" by blast
  from h1 pass_item1_hit c1 h3 h4 h5 c2 show ?thesis by (intro conjI)
qed

section \<open>Saving the cache\<close>

lemma fields_item_clash:
  "entry_fields item_clash = Inr (JStr ''status_cache'', JStr ''p1'', JStr ''a1'', JStr ''t1'')"
  by (simp add: entry_fields_def item_clash_def py_get_def)

text \<open>
  Claim C3 says that a run without a successful download leaves the cache file as it is.
  The JSON bucket of a type is saved under the type name followed by ".json", and the cache
  file is "status_cache.json": for an entry of type "status_cache" whose hash is taken from
  the cache, the run requests nothing, skips the cache save, and then writes the bucket over
  the cache file.
\<close>

theorem cache_file_overwritten_by_bucket:
  "main clashing with_cache1 =
     Inr \<lparr>writes = [(''status_cache.json'', JsonDoc (JObj [(''k1'', item_clash)])),
                    (''status_cache_hash.txt'', TextDoc ''0cc175b9c0f1b6a831c399e269772661 p1'')],
          archive_requests = []\<rparr>
   \<and> with_cache1 STATUS_FILE = Some (JsonDoc cache1)
   \<and> written [(''status_cache.json'', JsonDoc (JObj [(''k1'', item_clash)])),
              (''status_cache_hash.txt'', TextDoc ''0cc175b9c0f1b6a831c399e269772661 p1'')]
        with_cache1 STATUS_FILE = Some (JsonDoc (JObj [(''k1'', item_clash)]))"
  by (simp add: main_def clashing_def with_cache1_def load_cache_def items_def
        process_entry_valid [OF fields_item_clash] STATUS_FILE_def written_def
        initial_def py_get_def py_str_def cache_miss_def save_outputs_def cache1_def record1_def
        add_hash_line_def bucketed_def new_type_def bucket_of_def get_singular_name_def)

section \<open>Running twice\<close>

subsection \<open>Equality is transitive\<close>

lemma py_eq_items_iff:
  "py_eq_items a b =
     (\<forall>(k, v) \<in> set a. \<exists>w. map_of b k = Some w \<and> ((v = JNaN \<and> w = JNaN) \<or> py_eq v w))"
proof (induction a)
  case Nil then show ?case by simp
next
  case (Cons p a)
  obtain k v where p: "p = (k, v)" by (cases p)
  show ?case unfolding p by (cases "map_of b k") (simp_all add: Cons.IH)
qed

lemma member_eq_trans:
  assumes "\<And>y z. py_eq x y \<Longrightarrow> py_eq y z \<Longrightarrow> py_eq x z"
      and "(x = JNaN \<and> y = JNaN) \<or> py_eq x y"
      and "(y = JNaN \<and> z = JNaN) \<or> py_eq y z"
  shows "(x = JNaN \<and> z = JNaN) \<or> py_eq x z"
proof (cases "y = JNaN")
  case True
  with assms(2,3) show ?thesis by simp
next
  case False
  with assms(2,3) have "py_eq x y" "py_eq y z" by simp_all
  from assms(1) [OF this] show ?thesis by simp
qed

lemma py_eq_list_trans:
  assumes "\<And>x y z. x \<in> set xs \<Longrightarrow> py_eq x y \<Longrightarrow> py_eq y z \<Longrightarrow> py_eq x z"
  shows "py_eq_list xs ys \<Longrightarrow> py_eq_list ys zs \<Longrightarrow> py_eq_list xs zs"
  using assms
proof (induction xs arbitrary: ys zs)
  case Nil
  from Nil.prems(1,2) show ?case by (cases ys; cases zs) simp_all
next
  case (Cons x xs)
  from Cons.prems(1) obtain y ys' where ys: "ys = y # ys'" by (cases ys) simp_all
  from Cons.prems(2) ys obtain z zs' where zs: "zs = z # zs'" by (cases zs) simp_all
  from Cons.prems(1,2) have xy: "(x = JNaN \<and> y = JNaN) \<or> py_eq x y"
    and yz: "(y = JNaN \<and> z = JNaN) \<or> py_eq y z"
    and l1: "py_eq_list xs ys'" and l2: "py_eq_list ys' zs'"
    by (simp_all add: ys zs)
  have xz: "(x = JNaN \<and> z = JNaN) \<or> py_eq x z"
  proof (rule member_eq_trans [OF _ xy yz])
    fix y' z' assume "py_eq x y'" "py_eq y' z'"
    with Cons.prems(3) [of x y' z'] show "py_eq x z'" by simp
  qed
  have "py_eq_list xs zs'"
  proof (rule Cons.IH [OF l1 l2])
    fix x' y' z' assume "x' \<in> set xs" "py_eq x' y'" "py_eq y' z'"
    with Cons.prems(3) [of x' y' z'] show "py_eq x' z'" by simp
  qed
  with xz show ?case by (simp add: zs)
qed

lemma py_eq_items_trans:
  assumes "\<And>k v y z. (k, v) \<in> set a \<Longrightarrow> py_eq v y \<Longrightarrow> py_eq y z \<Longrightarrow> py_eq v z"
      and "py_eq_items a b" and "py_eq_items b c"
  shows "py_eq_items a c"
  unfolding py_eq_items_iff
proof (clarify)
  fix k v assume kv: "(k, v) \<in> set a"
  with assms(2) obtain w where w: "map_of b k = Some w" "(v = JNaN \<and> w = JNaN) \<or> py_eq v w"
    unfolding py_eq_items_iff by blast
  from w(1) have "(k, w) \<in> set b" by (rule map_of_SomeD)
  with assms(3) obtain x where x: "map_of c k = Some x" "(w = JNaN \<and> x = JNaN) \<or> py_eq w x"
    unfolding py_eq_items_iff by blast
  have "(v = JNaN \<and> x = JNaN) \<or> py_eq v x"
  proof (rule member_eq_trans [OF _ w(2) x(2)])
    fix y z assume "py_eq v y" "py_eq y z"
    from assms(1) [OF kv this] show "py_eq v z" .
  qed
  with x(1) show "\<exists>w. map_of c k = Some w \<and> ((v = JNaN \<and> w = JNaN) \<or> py_eq v w)" by simp
qed

lemma py_eq_trans: "py_eq a b \<Longrightarrow> py_eq b c \<Longrightarrow> py_eq a c"
proof (induction a arbitrary: b c)
  case JNull
  then show ?case by (cases b; cases c) simp_all
next
  case (JBool x)
  then show ?case by (cases b; cases c) (simp_all split: if_splits)
next
  case (JNum x)
  then show ?case by (cases b; cases c) (simp_all split: if_splits)
next
  case JNaN
  then show ?case by simp
next
  case (JStr x)
  then show ?case by (cases b; cases c) simp_all
next
  case (JArr xs)
  from JArr.prems(1) obtain ys where b: "b = JArr ys" by (cases b) simp_all
  from JArr.prems(2) b obtain zs where c: "c = JArr zs" by (cases c) simp_all
  from JArr.prems have l1: "py_eq_list xs ys" and l2: "py_eq_list ys zs" by (simp_all add: b c)
  have "py_eq_list xs zs"
  proof (rule py_eq_list_trans [OF _ l1 l2])
    fix x y z assume "x \<in> set xs" "py_eq x y" "py_eq y z"
    with JArr.IH [of x y z] show "py_eq x z" by simp
  qed
  then show ?case by (simp add: c)
next
  case (JObj kvs)
  from JObj.prems(1) obtain ys where b: "b = JObj ys" by (cases b) simp_all
  from JObj.prems(2) b obtain zs where c: "c = JObj zs" by (cases c) simp_all
  from JObj.prems have l: "length kvs = length zs" and i: "py_eq_items kvs ys" "py_eq_items ys zs"
    by (simp_all add: b c)
  have "py_eq_items kvs zs"
  proof (rule py_eq_items_trans [OF _ i])
    fix k v y z assume "(k, v) \<in> set kvs" "py_eq v y" "py_eq y z"
    with JObj.IH [of "(k, v)" v y z] show "py_eq v z" by simp
  qed
  with l show ?case by (simp add: c)
qed


subsection \<open>The four ways through the loop body\<close>

lemma cache_miss_iff:
  "cache_miss ce ts = Inr m \<Longrightarrow> m = (\<not> (truthy ce \<and> py_eq (stamp_of ce) ts))"
  by (auto simp: cache_miss_def stamp_of_def bnd_eq_Inr split: if_splits)

lemma process_entry_cases:
  assumes "process_entry w st (key, item) = Inr st'"
  obtains
    (skipped) "cache_key item = None" and "st' = st"
  | (hit) ty mid aid ts ce h where
      "entry_fields item = Inr (JStr ty, mid, aid, ts)" and "truthy mid" and "truthy aid"
      and "py_get (status_cache st) (py_str aid) JNull = Inr ce"
      and "cache_miss ce ts = Inr False"
      and "py_get ce ''md5'' JNull = Inr h"
      and "add_hash_line (get_singular_name ty) h mid
             (bucketed (get_singular_name ty) key item st) = Inr st'"
  | (refused) ty mid aid ts ce where
      "entry_fields item = Inr (JStr ty, mid, aid, ts)" and "truthy mid" and "truthy aid"
      and "py_get (status_cache st) (py_str aid) JNull = Inr ce"
      and "cache_miss ce ts = Inr True"
      and "failed (archive w (length (requests st)) (MOD_DOWNLOAD_TEMPLATE (py_str aid)))"
      and "st' = (bucketed (get_singular_name ty) key item st)
                   \<lparr>requests := requests st @ [MOD_DOWNLOAD_TEMPLATE (py_str aid)]\<rparr>"
  | (downloaded) ty mid aid ts ce d records where
      "entry_fields item = Inr (JStr ty, mid, aid, ts)" and "truthy mid" and "truthy aid"
      and "py_get (status_cache st) (py_str aid) JNull = Inr ce"
      and "cache_miss ce ts = Inr True"
      and "archive w (length (requests st)) (MOD_DOWNLOAD_TEMPLATE (py_str aid))
             = Response 200 (Some d)"
      and "status_cache st = JObj records"
      and "add_hash_line (get_singular_name ty) (JStr d) mid
             ((bucketed (get_singular_name ty) key item st)
                \<lparr>requests := requests st @ [MOD_DOWNLOAD_TEMPLATE (py_str aid)],
                 status_cache := JObj (AList.update (py_str aid) (stored ts d mid) records),
                 updates_made := True\<rparr>) = Inr st'"
proof -
  from assms obtain mt mid aid ts where f: "entry_fields item = Inr (mt, mid, aid, ts)"
    by (auto simp: process_entry_def bnd_eq_Inr)
  show thesis
  proof (cases "truthy mid \<and> truthy aid")
    case False
    with f assms have "cache_key item = None" "st' = st"
      by (auto simp: process_entry_def cache_key_def)
    then show thesis by (rule skipped)
  next
    case True
    with f assms obtain ty where ty: "mt = JStr ty"
      by (cases mt) (auto simp: process_entry_def str_receiver_def)
    from True have t1: "truthy mid" and t2: "truthy aid" by simp_all
    note f' = f [unfolded ty]
    let ?T = "get_singular_name ty"
    let ?b = "bucketed ?T key item st"
    from assms f' t1 t2 obtain ce miss where
      ce: "py_get (status_cache st) (py_str aid) JNull = Inr ce"
      and miss: "cache_miss ce ts = Inr miss"
      and rest: "(if miss
         then download_and_hash w ?T mid aid ts ?b
         else bnd (py_get ce ''md5'' JNull) (\<lambda>current_md5.
                add_hash_line ?T current_md5 mid ?b)) = Inr st'"
      by (auto simp: process_entry_valid bnd_eq_Inr)
    show thesis
    proof (cases miss)
      case False
      with rest obtain h where h: "py_get ce ''md5'' JNull = Inr h"
        and add: "add_hash_line ?T h mid ?b = Inr st'"
        by (auto simp: bnd_eq_Inr)
      from miss False have m: "cache_miss ce ts = Inr False" by simp
      from f' t1 t2 ce m h add show thesis by (rule hit)
    next
      case True
      with rest have dl: "download_and_hash w ?T mid aid ts ?b = Inr st'" by simp
      from miss True have m: "cache_miss ce ts = Inr True" by simp
      from ce obtain records where rec: "status_cache st = JObj records"
        by (cases "status_cache st") (auto simp: py_get_def)
      from dl show thesis
      proof (cases rule: download_and_hash_cases)
        case unchanged
        from unchanged(2) rec
        have fl: "failed (archive w (length (requests st)) (MOD_DOWNLOAD_TEMPLATE (py_str aid)))"
          by simp
        from unchanged(1)
        have eq: "st' = ?b\<lparr>requests := requests st @ [MOD_DOWNLOAD_TEMPLATE (py_str aid)]\<rparr>"
          by simp
        from f' t1 t2 ce m fl eq show thesis by (rule refused)
      next
        case (hashed d records')
        from hashed(2) rec have r: "records' = records" by simp
        from hashed(1)
        have a: "archive w (length (requests st)) (MOD_DOWNLOAD_TEMPLATE (py_str aid))
                   = Response 200 (Some d)" by simp
        from hashed(3) r
        have add: "add_hash_line ?T (JStr d) mid
             (?b\<lparr>requests := requests st @ [MOD_DOWNLOAD_TEMPLATE (py_str aid)],
                 status_cache := JObj (AList.update (py_str aid) (stored ts d mid) records),
                 updates_made := True\<rparr>) = Inr st'" by simp
        from f' t1 t2 ce m a rec add show thesis by (rule downloaded)
      qed
    qed
  qed
qed


lemma cache_key_valid:
  "entry_fields item = Inr (mt, mid, aid, ts) \<Longrightarrow> truthy mid \<Longrightarrow> truthy aid \<Longrightarrow>
   cache_key item = Some (py_str aid)"
  by (simp add: cache_key_def)


lemma remote_stamp_valid:
  "entry_fields item = Inr (mt, mid, aid, ts) \<Longrightarrow> remote_stamp item = ts"
  by (simp add: remote_stamp_def)

subsection \<open>Which cache records a pass touches\<close>

text \<open>
  A pass of the loop body leaves the record under a key as it is, unless the entry has this
  key, misses on the record and is served.
\<close>

lemma step_record_stable:
  assumes det: "\<And>n u. archive w n u = archive w 0 u"
      and step: "process_entry w st (k, item) = Inr st'"
      and rec: "py_get (status_cache st) a JNull = Inr R"
      and quiet: "cache_key item = Some a \<Longrightarrow>
                    cache_miss R (remote_stamp item) = Inr False
                    \<or> failed (archive w 0 (MOD_DOWNLOAD_TEMPLATE a))"
  shows "py_get (status_cache st') a JNull = Inr R"
  using step
proof (cases rule: process_entry_cases)
  case skipped
  with rec show ?thesis by simp
next
  case (hit ty mid aid ts ce h)
  from add_hash_line_fields(2) [OF hit(7)] rec show ?thesis by simp
next
  case (refused ty mid aid ts ce)
  with rec show ?thesis by simp
next
  case (downloaded ty mid aid ts ce d records)
  show ?thesis
  proof (cases "a = py_str aid")
    case True
    with cache_key_valid [OF downloaded(1-3)] have "cache_key item = Some a" by simp
    from quiet [OF this] remote_stamp_valid [OF downloaded(1)]
    have q: "cache_miss R ts = Inr False \<or> failed (archive w 0 (MOD_DOWNLOAD_TEMPLATE a))"
      by simp
    from rec downloaded(4) True have "R = ce" by simp
    with downloaded(5) have "cache_miss R ts \<noteq> Inr False" by simp
    moreover from downloaded(6) det [of "length (requests st)" "MOD_DOWNLOAD_TEMPLATE (py_str aid)"]
    have "\<not> failed (archive w 0 (MOD_DOWNLOAD_TEMPLATE a))" by (simp add: True)
    ultimately show ?thesis using q by simp
  next
    case False
    from add_hash_line_fields(2) [OF downloaded(8)] downloaded(7) False rec show ?thesis
      by (simp add: py_get_def AList.update_conv')
  qed
qed

lemma pass_record_stable:
  assumes det: "\<And>n u. archive w n u = archive w 0 u"
  shows "process_all w st es = Inr st' \<Longrightarrow> py_get (status_cache st) a JNull = Inr R \<Longrightarrow>
     \<forall>e \<in> set es. cache_key (snd e) = Some a \<longrightarrow>
        cache_miss R (remote_stamp (snd e)) = Inr False
        \<or> failed (archive w 0 (MOD_DOWNLOAD_TEMPLATE a)) \<Longrightarrow>
     py_get (status_cache st') a JNull = Inr R"
proof (induction es arbitrary: st)
  case Nil then show ?case by simp
next
  case (Cons e es)
  obtain k item where e: "e = (k, item)" by (cases e)
  from Cons.prems(1) obtain st1 where s1: "process_entry w st (k, item) = Inr st1"
    and r: "process_all w st1 es = Inr st'" by (auto simp: e bnd_eq_Inr)
  from Cons.prems(3) have q: "cache_key item = Some a \<Longrightarrow>
      cache_miss R (remote_stamp item) = Inr False
      \<or> failed (archive w 0 (MOD_DOWNLOAD_TEMPLATE a))"
    by (simp add: e)
  from step_record_stable [OF det s1 Cons.prems(2) q]
  have "py_get (status_cache st1) a JNull = Inr R" .
  from Cons.IH [OF r this] Cons.prems(3) show ?case by simp
qed

lemma cache_miss_hit_trans:
  assumes "cache_miss ce ts = Inr False" and "py_eq ts ts'"
  shows "cache_miss ce ts' = Inr False"
proof -
  from assms(1) obtain cached where t: "truthy ce"
    and c: "py_get ce ''timestamp'' JNull = Inr cached" and eq: "py_eq cached ts"
    by (auto simp: cache_miss_def bnd_eq_Inr split: if_splits)
  from py_eq_trans [OF eq assms(2)] t c show ?thesis by (simp add: cache_miss_def)
qed

text \<open>
  The record an entry leaves under its key is the record at the end of the pass, when the
  later entries with this key carry its timestamp.
\<close>

lemma record_after_step_stays:
  assumes det: "\<And>n u. archive w n u = archive w 0 u"
      and stepA: "process_entry w sA (k, item) = Inr sA1"
      and key: "cache_key item = Some a"
      and agree: "\<forall>e' \<in> set es. cache_key (snd e') = Some a
                    \<longrightarrow> py_eq (remote_stamp item) (remote_stamp (snd e'))"
      and rest: "process_all w sA1 es = Inr sA'"
  shows "py_get (status_cache sA') a JNull = py_get (status_cache sA1) a JNull"
  using stepA
proof (cases rule: process_entry_cases)
  case skipped
  with key show ?thesis by simp
next
  case (hit ty mid aid ts ce h)
  from cache_key_valid [OF hit(1-3)] key have a: "a = py_str aid" by simp
  from add_hash_line_fields(2) [OF hit(7)] hit(4) a
  have rec: "py_get (status_cache sA1) a JNull = Inr ce" by simp
  have "\<forall>e' \<in> set es. cache_key (snd e') = Some a \<longrightarrow>
        cache_miss ce (remote_stamp (snd e')) = Inr False
        \<or> failed (archive w 0 (MOD_DOWNLOAD_TEMPLATE a))"
    using agree cache_miss_hit_trans [OF hit(5)] remote_stamp_valid [OF hit(1)] by auto
  from pass_record_stable [OF det rest rec this] rec show ?thesis by simp
next
  case (refused ty mid aid ts ce)
  from cache_key_valid [OF refused(1-3)] key have a: "a = py_str aid" by simp
  from refused(7) refused(4) a
  have rec: "py_get (status_cache sA1) a JNull = Inr ce" by simp
  from refused(6) det [of "length (requests sA)" "MOD_DOWNLOAD_TEMPLATE (py_str aid)"] a
  have "failed (archive w 0 (MOD_DOWNLOAD_TEMPLATE a))" by simp
  then have "\<forall>e' \<in> set es. cache_key (snd e') = Some a \<longrightarrow>
        cache_miss ce (remote_stamp (snd e')) = Inr False
        \<or> failed (archive w 0 (MOD_DOWNLOAD_TEMPLATE a))"
    by simp
  from pass_record_stable [OF det rest rec this] rec show ?thesis by simp
next
  case (downloaded ty mid aid ts ce d records)
  from cache_key_valid [OF downloaded(1-3)] key have a: "a = py_str aid" by simp
  from add_hash_line_fields(2) [OF downloaded(8)] a
  have rec: "py_get (status_cache sA1) a JNull = Inr (stored ts d mid)"
    by (simp add: py_get_def)
  have "cache_miss (stored ts d mid) ts' = Inr False" if "py_eq ts ts'" for ts'
    using that by (simp add: cache_miss_def stored_def py_get_def)
  then have "\<forall>e' \<in> set es. cache_key (snd e') = Some a \<longrightarrow>
        cache_miss (stored ts d mid) (remote_stamp (snd e')) = Inr False
        \<or> failed (archive w 0 (MOD_DOWNLOAD_TEMPLATE a))"
    using agree remote_stamp_valid [OF downloaded(1)] by auto
  from pass_record_stable [OF det rest rec this] rec show ?thesis by simp
qed

lemma step_no_update:
  assumes "process_entry w st (k, item) = Inr st'"
  shows "(updates_made st \<longrightarrow> updates_made st')
         \<and> (\<not> updates_made st' \<longrightarrow> status_cache st' = status_cache st)"
  using assms
proof (cases rule: process_entry_cases)
  case skipped
  then show ?thesis by simp
next
  case (hit ty mid aid ts ce h)
  from add_hash_line_fields(2,3) [OF hit(7)] show ?thesis by simp
next
  case (refused ty mid aid ts ce)
  then show ?thesis by simp
next
  case (downloaded ty mid aid ts ce d records)
  from add_hash_line_fields(3) [OF downloaded(8)] show ?thesis by simp
qed

lemma pass_no_update:
  "process_all w st es = Inr st' \<Longrightarrow> \<not> updates_made st' \<Longrightarrow>
   status_cache st' = status_cache st \<and> \<not> updates_made st"
proof (induction es arbitrary: st)
  case Nil then show ?case by simp
next
  case (Cons e es)
  obtain k item where e: "e = (k, item)" by (cases e)
  from Cons.prems(1) obtain st1 where s1: "process_entry w st (k, item) = Inr st1"
    and r: "process_all w st1 es = Inr st'" by (auto simp: e bnd_eq_Inr)
  from Cons.IH [OF r Cons.prems(2)] step_no_update [OF s1] show ?case by auto
qed

lemma add_hash_line_sim:
  assumes "add_hash_line t h mid sA = Inr sA1" and "hash_buckets sB = hash_buckets sA"
  shows "add_hash_line t h mid sB = Inr (sB\<lparr>hash_buckets := hash_buckets sA1\<rparr>)"
  using assms by (auto simp: add_hash_line_def split: if_splits option.splits)

lemma bucketed_sim:
  assumes "type_buckets sB = type_buckets sA" and "hash_buckets sB = hash_buckets sA"
  shows "type_buckets (bucketed t k item sB) = type_buckets (bucketed t k item sA)"
    and "hash_buckets (bucketed t k item sB) = hash_buckets (bucketed t k item sA)"
  using assms by (simp_all add: bucketed_def new_type_def bucket_of_def)

lemma skipped_anywhere:
  assumes "process_entry w sA (k, item) = Inr sA1" and "cache_key item = None"
  shows "process_entry w sB (k, item) = Inr sB"
proof -
  from assms(1) obtain mt mid aid ts where f: "entry_fields item = Inr (mt, mid, aid, ts)"
    by (auto simp: process_entry_def bnd_eq_Inr)
  with assms(2) have "\<not> (truthy mid \<and> truthy aid)"
    by (auto simp: cache_key_def split: if_splits)
  with f show ?thesis by (auto simp: process_entry_def)
qed

lemma second_step:
  assumes det: "\<And>n u. archive w n u = archive w 0 u"
      and stepA: "process_entry w sA (k, item) = Inr sA1"
      and tb: "type_buckets sB = type_buckets sA"
      and hb: "hash_buckets sB = hash_buckets sA"
      and self: "cache_key item \<noteq> None \<Longrightarrow> py_eq (remote_stamp item) (remote_stamp item)"
      and look: "\<And>key. cache_key item = Some key \<Longrightarrow>
                  py_get (status_cache sB) key JNull = py_get (status_cache sA1) key JNull"
  shows "\<exists>sB1. process_entry w sB (k, item) = Inr sB1
           \<and> type_buckets sB1 = type_buckets sA1 \<and> hash_buckets sB1 = hash_buckets sA1
           \<and> status_cache sB1 = status_cache sB \<and> updates_made sB1 = updates_made sB"
  using stepA
proof (cases rule: process_entry_cases)
  case skipped
  from skipped_anywhere [OF stepA skipped(1), of sB] skipped(2) tb hb show ?thesis by simp
next
  case (hit ty mid aid ts ce h)
  let ?T = "get_singular_name ty"
  from look [OF cache_key_valid [OF hit(1-3)]] add_hash_line_fields(2) [OF hit(7)] hit(4)
  have ceB: "py_get (status_cache sB) (py_str aid) JNull = Inr ce" by simp
  from add_hash_line_sim [OF hit(7) bucketed_sim(2) [OF tb hb]]
  have "add_hash_line ?T h mid (bucketed ?T k item sB)
          = Inr ((bucketed ?T k item sB)\<lparr>hash_buckets := hash_buckets sA1\<rparr>)" .
  with ceB hit(5,6)
  have "process_entry w sB (k, item)
          = Inr ((bucketed ?T k item sB)\<lparr>hash_buckets := hash_buckets sA1\<rparr>)"
    by (simp add: process_entry_valid [OF hit(1-3)])
  moreover from add_hash_line_fields(4) [OF hit(7)] bucketed_sim(1) [OF tb hb]
  have "type_buckets (bucketed ?T k item sB) = type_buckets sA1" by simp
  ultimately show ?thesis by simp
next
  case (refused ty mid aid ts ce)
  let ?T = "get_singular_name ty"
  let ?u = "MOD_DOWNLOAD_TEMPLATE (py_str aid)"
  from look [OF cache_key_valid [OF refused(1-3)]] refused(7) refused(4)
  have ceB: "py_get (status_cache sB) (py_str aid) JNull = Inr ce" by simp
  from refused(6) det [of "length (requests sA)" ?u] det [of "length (requests sB)" ?u]
  have "failed (archive w (length (requests (bucketed ?T k item sB))) ?u)" by simp
  from download_failed [OF this] ceB refused(5)
  have "process_entry w sB (k, item)
          = Inr ((bucketed ?T k item sB)\<lparr>requests := requests (bucketed ?T k item sB) @ [?u]\<rparr>)"
    by (simp add: process_entry_valid [OF refused(1-3)])
  with refused(7) bucketed_sim [OF tb hb] show ?thesis by simp
next
  case (downloaded ty mid aid ts ce d records)
  let ?T = "get_singular_name ty"
  from add_hash_line_fields(2) [OF downloaded(8)]
  have "status_cache sA1 = JObj (AList.update (py_str aid) (stored ts d mid) records)" by simp
  with look [OF cache_key_valid [OF downloaded(1-3)]]
  have ceB: "py_get (status_cache sB) (py_str aid) JNull = Inr (stored ts d mid)"
    by (simp add: py_get_def)
  from self cache_key_valid [OF downloaded(1-3)] remote_stamp_valid [OF downloaded(1)]
  have "py_eq ts ts" by simp
  then have hitB: "cache_miss (stored ts d mid) ts = Inr False"
    by (simp add: cache_miss_def stored_def py_get_def)
  have md5B: "py_get (stored ts d mid) ''md5'' JNull = Inr (JStr d)"
    by (simp add: stored_def py_get_def)
  have "hash_buckets (bucketed ?T k item sB) =
        hash_buckets ((bucketed ?T k item sA)
                \<lparr>requests := requests sA @ [MOD_DOWNLOAD_TEMPLATE (py_str aid)],
                 status_cache := JObj (AList.update (py_str aid) (stored ts d mid) records),
                 updates_made := True\<rparr>)"
    using bucketed_sim(2) [OF tb hb] by simp
  from add_hash_line_sim [OF downloaded(8) this]
  have "add_hash_line ?T (JStr d) mid (bucketed ?T k item sB)
          = Inr ((bucketed ?T k item sB)\<lparr>hash_buckets := hash_buckets sA1\<rparr>)" .
  with ceB hitB md5B
  have "process_entry w sB (k, item)
          = Inr ((bucketed ?T k item sB)\<lparr>hash_buckets := hash_buckets sA1\<rparr>)"
    by (simp add: process_entry_valid [OF downloaded(1-3)])
  moreover from add_hash_line_fields(4) [OF downloaded(8)] bucketed_sim(1) [OF tb hb]
  have "type_buckets (bucketed ?T k item sB) = type_buckets sA1" by simp
  ultimately show ?thesis by simp
qed

lemma stamps_agree_Cons:
  assumes "stamps_agree ((k, item) # es)"
  shows "stamps_agree es"
    and "cache_key item \<noteq> None \<Longrightarrow> py_eq (remote_stamp item) (remote_stamp item)"
    and "cache_key item = Some a \<Longrightarrow>
         \<forall>e' \<in> set es. cache_key (snd e') = Some a
            \<longrightarrow> py_eq (remote_stamp item) (remote_stamp (snd e'))"
  using assms by (auto simp: stamps_agree_def)

lemma second_pass:
  assumes det: "\<And>n u. archive w n u = archive w 0 u"
  shows "process_all w sA es = Inr sA' \<Longrightarrow>
     type_buckets sB = type_buckets sA \<Longrightarrow> hash_buckets sB = hash_buckets sA \<Longrightarrow>
     status_cache sB = status_cache sA' \<Longrightarrow>
     stamps_agree es \<Longrightarrow>
     \<exists>sB'. process_all w sB es = Inr sB'
       \<and> type_buckets sB' = type_buckets sA' \<and> hash_buckets sB' = hash_buckets sA'
       \<and> status_cache sB' = status_cache sB \<and> updates_made sB' = updates_made sB"
proof (induction es arbitrary: sA sB)
  case Nil then show ?case by simp
next
  case (Cons e es)
  obtain k item where e: "e = (k, item)" by (cases e)
  from Cons.prems(1) obtain sA1 where s1: "process_entry w sA (k, item) = Inr sA1"
    and r: "process_all w sA1 es = Inr sA'" by (auto simp: e bnd_eq_Inr)
  note ag = stamps_agree_Cons [OF Cons.prems(5) [unfolded e]]
  have look: "py_get (status_cache sB) key JNull = py_get (status_cache sA1) key JNull"
    if "cache_key item = Some key" for key
    using record_after_step_stays [OF det s1 that ag(3) [OF that] r] Cons.prems(4) by simp
  from second_step [OF det s1 Cons.prems(2,3) ag(2) look]
  obtain sB1 where b1: "process_entry w sB (k, item) = Inr sB1"
    and tb1: "type_buckets sB1 = type_buckets sA1" and hb1: "hash_buckets sB1 = hash_buckets sA1"
    and c1: "status_cache sB1 = status_cache sB" and u1: "updates_made sB1 = updates_made sB"
    by blast
  from c1 Cons.prems(4) have c1': "status_cache sB1 = status_cache sA'" by simp
  from Cons.IH [OF r tb1 hb1 c1' ag(1)]
  obtain sB' where "process_all w sB1 es = Inr sB'"
    "type_buckets sB' = type_buckets sA'" "hash_buckets sB' = hash_buckets sA'"
    "status_cache sB' = status_cache sB1" "updates_made sB' = updates_made sB1"
    by blast
  with b1 c1 u1 show ?case by (simp add: e)
qed

subsection \<open>The names of the files a run writes\<close>

lemma cache_key_None_bucket: "cache_key item = None \<Longrightarrow> bucket_name item = None"
  by (auto simp: cache_key_def bucket_name_def split: sum.splits if_splits)

lemma bucket_name_valid:
  "entry_fields item = Inr (JStr ty, mid, aid, ts) \<Longrightarrow> truthy mid \<Longrightarrow> truthy aid \<Longrightarrow>
   bucket_name item = Some (get_singular_name ty)"
  by (simp add: bucket_name_def)

lemma keys_bucketed:
  "fst ` set (type_buckets (bucketed t k item st)) = insert t (fst ` set (type_buckets st))"
  by (auto simp: bucketed_def new_type_def AList.dom_update)

lemma step_types:
  assumes "process_entry w st (k, item) = Inr st'"
  shows "fst ` set (type_buckets st') =
           fst ` set (type_buckets st) \<union> (case bucket_name item of None \<Rightarrow> {} | Some t \<Rightarrow> {t})"
  using assms
proof (cases rule: process_entry_cases)
  case skipped
  then show ?thesis by (simp add: cache_key_None_bucket)
next
  case (hit ty mid aid ts ce h)
  from add_hash_line_fields(4) [OF hit(7)] bucket_name_valid [OF hit(1-3)] show ?thesis
    by (simp add: keys_bucketed)
next
  case (refused ty mid aid ts ce)
  with bucket_name_valid [OF refused(1-3)] show ?thesis by (simp add: keys_bucketed)
next
  case (downloaded ty mid aid ts ce d records)
  from add_hash_line_fields(4) [OF downloaded(8)] bucket_name_valid [OF downloaded(1-3)]
  show ?thesis by (simp add: keys_bucketed)
qed

lemma pass_types:
  "process_all w st es = Inr st' \<Longrightarrow>
   fst ` set (type_buckets st') =
     fst ` set (type_buckets st) \<union> {t. \<exists>e \<in> set es. bucket_name (snd e) = Some t}"
proof (induction es arbitrary: st)
  case Nil then show ?case by simp
next
  case (Cons e es)
  obtain k item where e: "e = (k, item)" by (cases e)
  from Cons.prems(1) obtain st1 where s1: "process_entry w st (k, item) = Inr st1"
    and r: "process_all w st1 es = Inr st'" by (auto simp: e bnd_eq_Inr)
  from Cons.IH [OF r] step_types [OF s1] show ?case
    by (auto simp: e split: option.splits)
qed

lemma written_append: "written (a @ b) fs = written b (written a fs)"
  by (simp add: written_def)

lemma written_other: "n \<notin> fst ` set ws \<Longrightarrow> written ws fs n = fs n"
  by (induction ws arbitrary: fs) (auto simp: written_def)

lemma json_name_clash: "t @ ''.json'' = STATUS_FILE \<Longrightarrow> t = ''status_cache''"
proof -
  assume "t @ ''.json'' = STATUS_FILE"
  then have "t @ ''.json'' = ''status_cache'' @ ''.json''" by (simp add: STATUS_FILE_def)
  then show ?thesis by (simp only: append_same_eq)
qed

lemma hash_name_no_clash: "t @ ''_hash.txt'' \<noteq> STATUS_FILE"
proof
  assume "t @ ''_hash.txt'' = STATUS_FILE"
  then have "last (t @ ''_hash.txt'') = last STATUS_FILE" by simp
  then show False by (simp add: STATUS_FILE_def)
qed

lemma bucket_files_names:
  assumes "''status_cache'' \<notin> fst ` set (type_buckets st)"
  shows "STATUS_FILE \<notin> fst ` set
           (map (\<lambda>(type_name, data_dict). (type_name @ ''.json'', JsonDoc (JObj data_dict)))
              (type_buckets st)
            @ map (\<lambda>(type_name, lines).
                (type_name @ ''_hash.txt'', TextDoc (py_join [CHR 0x0A] lines)))
              (hash_buckets st))"
proof
  assume "STATUS_FILE \<in> fst ` set
           (map (\<lambda>(type_name, data_dict). (type_name @ ''.json'', JsonDoc (JObj data_dict)))
              (type_buckets st)
            @ map (\<lambda>(type_name, lines).
                (type_name @ ''_hash.txt'', TextDoc (py_join [CHR 0x0A] lines)))
              (hash_buckets st))"
  then consider
    (json) t d where "(t, d) \<in> set (type_buckets st)" "t @ ''.json'' = STATUS_FILE"
  | (hash) t ls where "(t, ls) \<in> set (hash_buckets st)" "t @ ''_hash.txt'' = STATUS_FILE"
    by auto
  then show False
  proof cases
    case json
    from json_name_clash [OF json(2)] json(1) have "''status_cache'' \<in> fst ` set (type_buckets st)"
      by force
    with assms show False by simp
  next
    case hash
    with hash_name_no_clash show False by blast
  qed
qed


lemma filter_cache_save:
  "STATUS_FILE \<notin> fst ` set ws \<Longrightarrow>
   filter (\<lambda>x. fst x \<noteq> STATUS_FILE) ((if b then [(STATUS_FILE, c)] else []) @ ws) = ws"
  by (force simp: filter_id_conv)

lemma any_success_append:
  "any_success w n (a @ b) = (any_success w n a \<or> any_success w (n + length a) b)"
  by (induction a arbitrary: n) auto

lemma step_updates:
  assumes "process_entry w st (k, item) = Inr st'"
  shows "\<exists>new. requests st' = requests st @ new
           \<and> updates_made st' = (updates_made st \<or> any_success w (length (requests st)) new)"
  using assms
proof (cases rule: process_entry_cases)
  case skipped
  then show ?thesis by simp
next
  case (hit ty mid aid ts ce h)
  from add_hash_line_fields(1,3) [OF hit(7)] show ?thesis by simp
next
  case (refused ty mid aid ts ce)
  then show ?thesis by simp
next
  case (downloaded ty mid aid ts ce d records)
  from add_hash_line_fields(1,3) [OF downloaded(8)] downloaded(6) show ?thesis by simp
qed

lemma pass_updates:
  "process_all w st es = Inr st' \<Longrightarrow>
   \<exists>new. requests st' = requests st @ new
     \<and> updates_made st' = (updates_made st \<or> any_success w (length (requests st)) new)"
proof (induction es arbitrary: st)
  case Nil then show ?case by simp
next
  case (Cons e es)
  obtain k item where e: "e = (k, item)" by (cases e)
  from Cons.prems(1) obtain st1 where s1: "process_entry w st (k, item) = Inr st1"
    and r: "process_all w st1 es = Inr st'" by (auto simp: e bnd_eq_Inr)
  from step_updates [OF s1] obtain new1 where n1: "requests st1 = requests st @ new1"
    "updates_made st1 = (updates_made st \<or> any_success w (length (requests st)) new1)"
    by blast
  from Cons.IH [OF r] obtain new2 where n2: "requests st' = requests st1 @ new2"
    "updates_made st' = (updates_made st1 \<or> any_success w (length (requests st1)) new2)"
    by blast
  from n1 n2 have "requests st' = requests st @ (new1 @ new2)
     \<and> updates_made st' = (updates_made st \<or> any_success w (length (requests st)) (new1 @ new2))"
    by (auto simp: any_success_append)
  then show ?case by blast
qed

text \<open>
  Apart from the clash of names, the cache file is written exactly when one of the requests
  of the run was answered with status 200 and hashed.
\<close>

lemma cache_saved_iff_download_succeeded:
  assumes "catalog w = Some (JObj entries)"
      and "\<forall>e \<in> set entries. bucket_name (snd e) \<noteq> Some ''status_cache''"
      and "main w fs = Inr r"
  shows "(STATUS_FILE \<in> fst ` set (writes r)) = any_success w 0 (archive_requests r)"
proof -
  from assms(1,3) obtain c0 st where pass: "process_all w (initial c0) entries = Inr st"
    and r: "r = \<lparr>writes = save_outputs st, archive_requests = requests st\<rparr>"
    by (auto simp: main_def bnd_eq_Inr items_def)
  from pass_types [OF pass] assms(2) have "''status_cache'' \<notin> fst ` set (type_buckets st)"
    by (auto simp: initial_def)
  from bucket_files_names [OF this]
  have "(STATUS_FILE \<in> fst ` set (save_outputs st)) = updates_made st"
    by (cases "updates_made st") (simp_all add: save_outputs_def)
  moreover from pass_updates [OF pass]
  have "updates_made st = any_success w 0 (requests st)" by (auto simp: initial_def)
  ultimately show ?thesis by (simp add: r)
qed


subsection \<open>Two runs of the samples\<close>

lemma fields_item1_moved:
  "entry_fields item1_moved = Inr (JStr ''players'', JStr ''p1'', JStr ''a1'', JStr ''t2'')"
  by (simp add: entry_fields_def item1_moved_def py_get_def)

lemmas run_defs =
  main_def load_cache_def items_def initial_def py_get_def py_str_def cache_miss_def
  download_and_hash_def add_hash_line_def save_outputs_def MOD_DOWNLOAD_TEMPLATE_def
  bucketed_def new_type_def bucket_of_def get_singular_name_def written_def STATUS_FILE_def

lemma run_refused: "main refusing Map.empty = Inr refused_run"
  by (simp add: run_defs refusing_def refused_run_def process_entry_valid [OF fields_item1])

lemma run_served_after_refused:
  "main serving (written (writes refused_run) Map.empty) = Inr served_run"
  by (simp add: run_defs serving_def refused_run_def served_run_def cache1_def record1_def
        process_entry_valid [OF fields_item1])

lemma run_served: "main serving Map.empty = Inr served_run"
  by (simp add: run_defs serving_def served_run_def cache1_def record1_def
        process_entry_valid [OF fields_item1])

lemma run_twins: "main twins Map.empty = Inr twins_run"
  by (simp add: run_defs twins_def twins_run_def record1_moved_def
        process_entry_valid [OF fields_item1] process_entry_valid [OF fields_item1_moved])

lemma run_twins_again: "main twins (written (writes twins_run) Map.empty) = Inr twins_run"
  by (simp add: run_defs twins_def twins_run_def record1_moved_def
        process_entry_valid [OF fields_item1] process_entry_valid [OF fields_item1_moved])

lemma fields_item_nan:
  "entry_fields item_nan = Inr (JStr ''players'', JStr ''p1'', JStr ''a1'', JNaN)"
  by (simp add: entry_fields_def item_nan_def py_get_def)

lemma run_nan: "main nan_stamped Map.empty = Inr nan_run"
  by (simp add: run_defs nan_stamped_def nan_run_def process_entry_valid [OF fields_item_nan])

lemma run_nan_again: "main nan_stamped (written (writes nan_run) Map.empty) = Inr nan_run"
  by (simp add: run_defs nan_stamped_def nan_run_def process_entry_valid [OF fields_item_nan])

lemma run_sharing: "main sharing Map.empty = Inr sharing_run"
  by (simp add: run_defs sharing_def sharing_run_def cache1_def record1_def
        process_entry_valid [OF fields_item1])

text \<open>
  Claim C4, as stated: a second run with the same catalog, from the cache the first run
  left, gives the output files of the first run and does not write the cache file. Three
  pairs of runs show otherwise. When the archive endpoint refuses the download in the first
  run, the cache keeps no trace of the attempt, so the second run asks again; served this
  time, it adds a hash line and writes the cache file. When two entries share an attachment
  id with different timestamps, each pass replaces the record of the other, so that every
  run downloads both again and writes the cache file, even with an endpoint that always
  answers alike. And a timestamp NaN differs from the NaN in the cache, so that again every
  run downloads and writes the cache file.
\<close>

theorem second_run_differs:
  "catalog serving = catalog refusing
   \<and> main refusing Map.empty = Inr refused_run
   \<and> main serving (written (writes refused_run) Map.empty) = Inr served_run
   \<and> writes served_run \<noteq> writes refused_run
   \<and> STATUS_FILE \<in> fst ` set (writes served_run)
   \<and> main twins Map.empty = Inr twins_run
   \<and> main twins (written (writes twins_run) Map.empty) = Inr twins_run
   \<and> STATUS_FILE \<in> fst ` set (writes twins_run)
   \<and> main nan_stamped Map.empty = Inr nan_run
   \<and> main nan_stamped (written (writes nan_run) Map.empty) = Inr nan_run
   \<and> STATUS_FILE \<in> fst ` set (writes nan_run)"
  using run_refused run_served_after_refused run_twins run_twins_again run_nan run_nan_again
  by (simp add: serving_def refusing_def served_run_def refused_run_def twins_run_def
        nan_run_def STATUS_FILE_def)

text \<open>
  Claim C4, amended: let the processed entries that share an attachment id carry equal
  timestamps, each timestamp being equal to itself (not NaN); let no type be saved under the
  name of the cache file; and let the archive endpoint answer a request by its address
  alone. Then a second run in the directory the first run left writes the per-type files of
  the first run again, with the same contents and in the same order, and does not write the
  cache file.
\<close>

theorem second_run_repeats_first:
  assumes cat: "catalog w = Some (JObj entries)"
      and det: "\<And>n url. archive w n url = archive w 0 url"
      and sa: "stamps_agree entries"
      and nc: "\<forall>e \<in> set entries. bucket_name (snd e) \<noteq> Some ''status_cache''"
      and run1: "main w fs = Inr r1"
  shows "\<exists>r2. main w (written (writes r1) fs) = Inr r2
           \<and> writes r2 = filter (\<lambda>x. fst x \<noteq> STATUS_FILE) (writes r1)
           \<and> STATUS_FILE \<notin> fst ` set (writes r2)"
proof -
  let ?files = "\<lambda>st. map (\<lambda>(type_name, data_dict). (type_name @ ''.json'', JsonDoc (JObj data_dict)))
              (type_buckets st)
            @ map (\<lambda>(type_name, lines).
                (type_name @ ''_hash.txt'', TextDoc (py_join [CHR 0x0A] lines)))
              (hash_buckets st)"
  from run1 cat obtain c0 sA where load: "load_cache fs = Inr c0"
    and passA: "process_all w (initial c0) entries = Inr sA"
    and r1: "r1 = \<lparr>writes = save_outputs sA, archive_requests = requests sA\<rparr>"
    by (auto simp: main_def bnd_eq_Inr items_def)
  have so: "save_outputs st =
      (if updates_made st then [(STATUS_FILE, JsonDoc (status_cache st))] else []) @ ?files st"
    for st by (simp add: save_outputs_def)
  from pass_types [OF passA] nc have "''status_cache'' \<notin> fst ` set (type_buckets sA)"
    by (auto simp: initial_def)
  from bucket_files_names [OF this] have names: "STATUS_FILE \<notin> fst ` set (?files sA)" .
  have load2: "load_cache (written (save_outputs sA) fs) = Inr (status_cache sA)"
  proof (cases "updates_made sA")
    case True
    then have "written (save_outputs sA) fs STATUS_FILE = Some (JsonDoc (status_cache sA))"
      unfolding so written_append using written_other [OF names] by (simp add: written_def)
    then show ?thesis by (simp add: load_cache_def)
  next
    case False
    then have "written (save_outputs sA) fs STATUS_FILE = fs STATUS_FILE"
      unfolding so using written_other [OF names] by simp
    moreover from pass_no_update [OF passA False] have "status_cache sA = c0"
      by (simp add: initial_def)
    ultimately show ?thesis using load by (simp add: load_cache_def)
  qed
  have "type_buckets (initial (status_cache sA)) = type_buckets (initial c0)"
    "hash_buckets (initial (status_cache sA)) = hash_buckets (initial c0)"
    "status_cache (initial (status_cache sA)) = status_cache sA"
    by (simp_all add: initial_def)
  from second_pass [OF det passA this sa]
  obtain sB where passB: "process_all w (initial (status_cache sA)) entries = Inr sB"
    and tb: "type_buckets sB = type_buckets sA" and hb: "hash_buckets sB = hash_buckets sA"
    and ub: "updates_made sB = updates_made (initial (status_cache sA))"
    by blast
  from ub have nb: "\<not> updates_made sB" by (simp add: initial_def)
  let ?r2 = "\<lparr>writes = save_outputs sB, archive_requests = requests sB\<rparr>"
  from cat load2 passB have m2: "main w (written (writes r1) fs) = Inr ?r2"
    by (simp add: main_def r1 items_def)
  from nb tb hb have w2: "save_outputs sB = ?files sA" by (simp add: so)
  have "filter (\<lambda>x. fst x \<noteq> STATUS_FILE) (save_outputs sA) = ?files sA"
    unfolding so by (rule filter_cache_save [OF names])
  with w2 names m2 show ?thesis by (simp add: r1)
qed


theorem second_run_repeats_first_witness:
  "catalog sharing = Some (JObj [(''k1'', item1), (''k2'', item1)])
   \<and> (\<forall>n url. archive sharing n url = archive sharing 0 url)
   \<and> bucket_name item1 \<noteq> Some ''status_cache''
   \<and> main sharing Map.empty = Inr sharing_run
   \<and> (\<exists>r2. main sharing (written (writes sharing_run) Map.empty) = Inr r2
           \<and> writes r2 = filter (\<lambda>x. fst x \<noteq> STATUS_FILE) (writes sharing_run)
           \<and> STATUS_FILE \<notin> fst ` set (writes r2))"
proof -
  have h1: "catalog sharing = Some (JObj [(''k1'', item1), (''k2'', item1)])"
    by (simp add: sharing_def)
  have h3: "archive sharing n url = archive sharing 0 url" for n url by (simp add: sharing_def)
  have h4: "stamps_agree [(''k1'', item1), (''k2'', item1)]"
    by (simp add: stamps_agree_def remote_stamp_def fields_item1)
  have h5: "\<forall>e \<in> set [(''k1'', item1), (''k2'', item1)]. bucket_name (snd e) \<noteq> Some ''status_cache''"
    by (simp add: bucket_name_item1)
  have h5': "bucket_name item1 \<noteq> Some ''status_cache''" by (simp add: bucket_name_item1)
  note c = second_run_repeats_first [OF h1 h3 h4 h5 run_sharing]
  from h1 h3 h5' run_sharing c show ?thesis by (intro conjI allI)
qed

end
